theory Spec2Isabelle
  imports Complex_Main "HOL-Library.Sublist"
begin

section \<open>PolyScan: the chunked document analysis pipeline\<close>

text \<open>
  A shallow embedding of \<^verbatim>\<open>chunked_analyzer.py\<close>. A Python \<^verbatim>\<open>str\<close> is a
  \<^typ>\<open>string\<close>; one \<^typ>\<open>char\<close> stands for one Python character, so the
  embedding covers texts whose characters have code points below 256 and
  \<^verbatim>\<open>len\<close> is \<^const>\<open>length\<close>.
\<close>

subsection \<open>Python string primitives used by the loader\<close>

text \<open>
  \<^verbatim>\<open>str.isspace\<close> on one character, which is also what \<^verbatim>\<open>\s\<close> matches in a
  \<^verbatim>\<open>str\<close> pattern: TAB, LF, VT, FF, CR, the separators 0x1C..0x1F, the blank,
  NEL (0x85) and the no-break space (0xA0).
\<close>

definition isspace :: "char \<Rightarrow> bool" where
  "isspace c \<longleftrightarrow>
     c \<in> set [CHR 0x09, CHR 0x0A, CHR 0x0B, CHR 0x0C, CHR 0x0D, CHR 0x1C, CHR 0x1D,
               CHR 0x1E, CHR 0x1F, CHR 0x20, CHR 0x85, CHR 0xA0]"

text \<open>\<^verbatim>\<open>s.strip()\<close>: leading and trailing whitespace removed.\<close>

definition strip :: "string \<Rightarrow> string" where
  "strip s = rev (dropWhile isspace (rev (dropWhile isspace s)))"

text \<open>The character class \<^verbatim>\<open>[.!?]\<close> of the sentence pattern.\<close>

definition sentence_end :: "char \<Rightarrow> bool" where
  "sentence_end c \<longleftrightarrow> c = CHR ''.'' \<or> c = CHR ''!'' \<or> c = CHR ''?''"

text \<open>
  \<^verbatim>\<open>re.split(r'(?<=[.!?])\s+', text)\<close>. A match starts at a whitespace character
  whose left neighbour is one of \<^verbatim>\<open>. ! ?\<close> and, being greedy, runs to the end of
  that whitespace run; the text between matches is returned, the first and the
  last piece included (the last one may be empty).
\<close>

function re_split :: "string \<Rightarrow> string list" where
  "re_split [] = [[]]"
| "re_split (c # cs) =
     (if sentence_end c \<and> cs \<noteq> [] \<and> isspace (hd cs)
      then [c] # re_split (dropWhile isspace cs)
      else (case re_split cs of
              [] \<Rightarrow> [[c]]
            | f # fs \<Rightarrow> (c # f) # fs))"
  by pat_completeness auto
termination
  by (relation "measure length") (auto simp: length_dropWhile_le less_Suc_eq_le)

text \<open>
  \<^verbatim>\<open>[s.strip() for s in sentences if s.strip() and len(s.strip()) > 10]\<close>
\<close>

definition extract_sentences_from_text :: "string \<Rightarrow> string list" where
  "extract_sentences_from_text text =
     map strip (filter (\<lambda>s. strip s \<noteq> [] \<and> length (strip s) > 10) (re_split text))"


text \<open>\<^verbatim>\<open>sep.join(parts)\<close>\<close>

fun join :: "string \<Rightarrow> string list \<Rightarrow> string" where
  "join sep [] = []"
| "join sep [x] = x"
| "join sep (x # y # ys) = x @ sep @ join sep (y # ys)"

text \<open>The decimal digits that an f-string prints for a non-negative \<^verbatim>\<open>int\<close>.\<close>

fun str_nat :: "nat \<Rightarrow> string" where
  "str_nat n =
     (if n < 10 then [''0123456789'' ! n]
      else str_nat (n div 10) @ [''0123456789'' ! (n mod 10)])"

declare str_nat.simps [simp del]

text \<open>
  \<^verbatim>\<open>str.lower\<close> on one character: the letters A..Z and the capital letters of
  the range 0xC0..0xDE (the multiplication sign 0xD7 apart) move up by 32.
\<close>

definition lower_char :: "char \<Rightarrow> char" where
  "lower_char c =
     (let n = (of_char c :: nat)
      in if (65 \<le> n \<and> n \<le> 90) \<or> (192 \<le> n \<and> n \<le> 222 \<and> n \<noteq> 215)
         then char_of (n + 32) else c)"

definition lower :: "string \<Rightarrow> string" where
  "lower s = map lower_char s"

text \<open>
  \<^verbatim>\<open>s.split(sep)\<close> for a one-character separator: never the empty list, so that
  \<^verbatim>\<open>[-1]\<close> on the result is \<^const>\<open>last\<close>.
\<close>

fun split :: "char \<Rightarrow> string \<Rightarrow> string list" where
  "split sep [] = [[]]"
| "split sep (c # cs) =
     (if c = sep then [] # split sep cs
      else (case split sep cs of
              [] \<Rightarrow> [[c]]
            | f # fs \<Rightarrow> (c # f) # fs))"

text \<open>\<^verbatim>\<open>xs[i:j]\<close> for \<open>0 \<le> i\<close> and \<open>0 \<le> j\<close>.\<close>

definition slice :: "'a list \<Rightarrow> nat \<Rightarrow> nat \<Rightarrow> 'a list" where
  "slice xs i j = take (j - i) (drop i xs)"

text \<open>
  \<^verbatim>\<open>range(start, stop, step)\<close> as a list. Python raises on a zero step; the only
  call passes the constant chunk size.
\<close>

function range_step :: "nat \<Rightarrow> nat \<Rightarrow> nat \<Rightarrow> nat list" where
  "range_step i stop step =
     (if 0 < step \<and> i < stop then i # range_step (i + step) stop step else [])"
  by pat_completeness auto
termination
  by (relation "measure (\<lambda>(i, stop, step). stop - i)") auto

declare range_step.simps [simp del]

subsection \<open>\<^verbatim>\<open>os.path\<close> (POSIX flavour)\<close>

text \<open>\<^verbatim>\<open>p.rfind(c)\<close>: the last index of \<open>c\<close>, or \<open>-1\<close>.\<close>

definition rfind :: "string \<Rightarrow> char \<Rightarrow> int" where
  "rfind p c =
     (if c \<in> set p
      then int (length p) - 1 - int (length (takeWhile (\<lambda>x. x \<noteq> c) (rev p)))
      else - 1)"

text \<open>\<^verbatim>\<open>os.path.basename\<close>: what follows the last slash.\<close>

definition basename :: "string \<Rightarrow> string" where
  "basename p = drop (nat (rfind p (CHR ''/'') + 1)) p"

text \<open>
  \<^verbatim>\<open>os.path.splitext\<close>: the extension starts at the last dot, provided that dot
  comes after the last slash and some character between the two is not a dot.
\<close>

definition splitext :: "string \<Rightarrow> string \<times> string" where
  "splitext p =
     (let sepIndex = rfind p (CHR ''/'');
          dotIndex = rfind p (CHR ''.'')
      in if dotIndex > sepIndex \<and>
            list_ex (\<lambda>c. c \<noteq> CHR ''.'') (slice p (nat (sepIndex + 1)) (nat dotIndex))
         then (take (nat dotIndex) p, drop (nat dotIndex) p)
         else (p, []))"

subsection \<open>The environment and the state of a run\<close>

text \<open>
  What the run does not compute itself is a parameter. \<open>converse k prompt\<close> is the
  answer of the \<open>k\<close>-th \<^verbatim>\<open>bedrock.converse\<close> call of the run (counted from 0):
  \<open>Inr text\<close> when \<^verbatim>\<open>response['output']['message']['content'][0]['text']\<close> is
  \<open>text\<close>, \<open>Inl d\<close> when the call or the look-up raises an exception that prints
  as \<open>d\<close>. \<open>get_text\<close> is BeautifulSoup's parse, removal of \<^verbatim>\<open>script\<close> and
  \<^verbatim>\<open>style\<close> and \<^verbatim>\<open>get_text()\<close>, which may raise as well. \<open>writable path\<close> says
  that \<^verbatim>\<open>open(path, 'w')\<close> and the write succeed.
\<close>

record env =
  converse :: "nat \<Rightarrow> string \<Rightarrow> string + string"
  get_text :: "string \<Rightarrow> string + string"
  writable :: "string \<Rightarrow> bool"

text \<open>
  The file system maps a path to \<open>Inr\<close> of the text that \<^verbatim>\<open>f.read()\<close> returns, or
  to \<open>Inl d\<close> when the path exists and reading it raises (a directory, no
  permission, bytes that are not UTF-8). \<open>stdout\<close> holds the printed lines and
  \<open>prompts\<close> the prompts sent to the completion service, both oldest first.
\<close>

record world =
  files :: "string \<Rightarrow> (string + string) option"
  stdout :: "string list"
  prompts :: "string list"

definition print :: "string \<Rightarrow> world \<Rightarrow> world" where
  "print line w = w\<lparr>stdout := stdout w @ [line]\<rparr>"

text \<open>
  The pictographs of the console messages lie outside the range of \<^typ>\<open>char\<close>;
  they are written as their UTF-8 bytes: U+274C, U+1F680, U+1F4C4, U+1F4CA.
\<close>

definition cross_mark :: string where
  "cross_mark = [CHR 0xE2, CHR 0x9D, CHR 0x8C]"

definition rocket :: string where
  "rocket = [CHR 0xF0, CHR 0x9F, CHR 0x9A, CHR 0x80]"

definition page_facing_up :: string where
  "page_facing_up = [CHR 0xF0, CHR 0x9F, CHR 0x93, CHR 0x84]"

definition bar_chart :: string where
  "bar_chart = [CHR 0xF0, CHR 0x9F, CHR 0x93, CHR 0x8A]"

text \<open>
  \<^verbatim>\<open>repr\<close> of a path that holds no quote, no backslash and no control
  character: the path between two apostrophes.
\<close>

definition quoted :: "string \<Rightarrow> string" where
  "quoted path = [CHR 0x27] @ path @ [CHR 0x27]"

text \<open>
  \<^verbatim>\<open>with open(path, 'r', encoding='utf-8') as f: content = f.read()\<close>; a
  missing file raises \<^verbatim>\<open>FileNotFoundError\<close>, which prints with the path.
\<close>

definition read_text :: "world \<Rightarrow> string \<Rightarrow> string + string" where
  "read_text w path =
     (case files w path of
        None \<Rightarrow> Inl (''[Errno 2] No such file or directory: '' @ quoted path)
      | Some r \<Rightarrow> r)"

subsection \<open>Document Loader\<close>

definition read_txt_sentences :: "world \<Rightarrow> string \<Rightarrow> string list \<times> world" where
  "read_txt_sentences w txt_path =
     (case read_text w txt_path of
        Inr content \<Rightarrow> (extract_sentences_from_text content, w)
      | Inl e \<Rightarrow> ([], print (cross_mark @ '' Error reading TXT file: '' @ e) w))"

definition read_html_sentences :: "env \<Rightarrow> world \<Rightarrow> string \<Rightarrow> string list \<times> world" where
  "read_html_sentences ev w html_path =
     (case read_text w html_path of
        Inr content \<Rightarrow>
          (case get_text ev content of
             Inr text \<Rightarrow> (extract_sentences_from_text text, w)
           | Inl e \<Rightarrow> ([], print (cross_mark @ '' Error reading HTML file: '' @ e) w))
      | Inl e \<Rightarrow> ([], print (cross_mark @ '' Error reading HTML file: '' @ e) w))"

text \<open>
  \<^verbatim>\<open>re.sub(r'<[^>]+>', ' ', content)\<close>: a \<^verbatim>\<open><\<close>, at least one character other
  than \<^verbatim>\<open>>\<close>, and the first \<^verbatim>\<open>>\<close> after them become one blank.
\<close>

function remove_tags :: "string \<Rightarrow> string" where
  "remove_tags [] = []"
| "remove_tags (c # cs) =
     (if c = CHR ''<'' \<and> takeWhile (\<lambda>x. x \<noteq> CHR ''>'') cs \<noteq> []
          \<and> dropWhile (\<lambda>x. x \<noteq> CHR ''>'') cs \<noteq> []
      then CHR '' '' # remove_tags (tl (dropWhile (\<lambda>x. x \<noteq> CHR ''>'') cs))
      else c # remove_tags cs)"
  by pat_completeness auto
termination
proof (relation "measure length")
  fix c :: char and cs :: string
  have "length (tl (dropWhile (\<lambda>x. x \<noteq> CHR ''>'') cs)) \<le> length cs"
    using length_dropWhile_le [of "\<lambda>x. x \<noteq> CHR ''>''" cs] by simp
  then show "(tl (dropWhile (\<lambda>x. x \<noteq> CHR ''>'') cs), c # cs) \<in> measure length"
    by simp
qed auto

text \<open>\<^verbatim>\<open>re.sub(r'\s+', ' ', text)\<close>: every whitespace run becomes one blank.\<close>

function collapse_whitespace :: "string \<Rightarrow> string" where
  "collapse_whitespace [] = []"
| "collapse_whitespace (c # cs) =
     (if isspace c then CHR '' '' # collapse_whitespace (dropWhile isspace cs)
      else c # collapse_whitespace cs)"
  by pat_completeness auto
termination
  by (relation "measure length") (auto simp: length_dropWhile_le less_Suc_eq_le)

text \<open>
  \<^verbatim>\<open>re.sub(r'<\?[^>]*\?>', '', text)\<close>: \<^verbatim>\<open><?\<close>, characters other than \<^verbatim>\<open>>\<close>
  of which the last is a \<^verbatim>\<open>?\<close>, and the \<^verbatim>\<open>>\<close> that follows are deleted.
\<close>

function remove_declarations :: "string \<Rightarrow> string" where
  "remove_declarations [] = []"
| "remove_declarations (c # cs) =
     (if c = CHR ''<'' \<and> cs \<noteq> [] \<and> hd cs = CHR ''?''
          \<and> takeWhile (\<lambda>x. x \<noteq> CHR ''>'') (tl cs) \<noteq> []
          \<and> last (takeWhile (\<lambda>x. x \<noteq> CHR ''>'') (tl cs)) = CHR ''?''
          \<and> dropWhile (\<lambda>x. x \<noteq> CHR ''>'') (tl cs) \<noteq> []
      then remove_declarations (tl (dropWhile (\<lambda>x. x \<noteq> CHR ''>'') (tl cs)))
      else c # remove_declarations cs)"
  by pat_completeness auto
termination
proof (relation "measure length")
  fix c :: char and cs :: string
  have "length (tl (dropWhile (\<lambda>x. x \<noteq> CHR ''>'') (tl cs))) \<le> length cs"
    using length_dropWhile_le [of "\<lambda>x. x \<noteq> CHR ''>''" "tl cs"] by simp
  then show "(tl (dropWhile (\<lambda>x. x \<noteq> CHR ''>'') (tl cs)), c # cs) \<in> measure length"
    by simp
qed auto

text \<open>The three substitutions of \<^verbatim>\<open>read_xml_sentences\<close>, in the source's order.\<close>

definition xml_text :: "string \<Rightarrow> string" where
  "xml_text content =
     remove_declarations (strip (collapse_whitespace (remove_tags content)))"

text \<open>
  \<^verbatim>\<open>if len(text) > 50000: text = text[:50000] + "... [truncated for performance]"\<close>
\<close>

definition limit_text :: "string \<Rightarrow> string" where
  "limit_text text =
     (if length text > 50000
      then take 50000 text @ ''... [truncated for performance]''
      else text)"

text \<open>
  \<^verbatim>\<open>[f"XML Phrase {i+1}: {sentence}" for i, sentence in enumerate(xml_sentences)]\<close>
\<close>

definition xml_phrases :: "string list \<Rightarrow> string list" where
  "xml_phrases xml_sentences =
     map (\<lambda>(i, sentence). ''XML Phrase '' @ str_nat (i + 1) @ '': '' @ sentence)
       (enumerate 0 xml_sentences)"

text \<open>
  The cap on the number of sentences: beyond 200, the first 200 numbered phrases
  and one closing phrase; the numbered phrases otherwise.
\<close>

definition cap_phrases :: "string list \<Rightarrow> string list" where
  "cap_phrases xml_sentences =
     (if length xml_sentences > 200
      then xml_phrases (take 200 xml_sentences)
           @ [''XML Phrase 201: [Additional content truncated for performance]'']
      else xml_phrases xml_sentences)"

text \<open>The body of \<^verbatim>\<open>read_xml_sentences\<close> once the file has been read.\<close>

definition xml_sentences_of :: "string \<Rightarrow> string list" where
  "xml_sentences_of content =
     cap_phrases (extract_sentences_from_text (limit_text (xml_text content)))"

definition read_xml_sentences :: "world \<Rightarrow> string \<Rightarrow> string list \<times> world" where
  "read_xml_sentences w xml_path =
     (case read_text w xml_path of
        Inr content \<Rightarrow> (xml_sentences_of content, w)
      | Inl e \<Rightarrow> ([], print (cross_mark @ '' Error reading XML: '' @ e) w))"

text \<open>\<^verbatim>\<open>ext = file_path.lower().split('.')[-1]\<close>\<close>

definition file_ext :: "string \<Rightarrow> string" where
  "file_ext file_path = last (split (CHR ''.'') (lower file_path))"

definition read_file_sentences :: "env \<Rightarrow> world \<Rightarrow> string \<Rightarrow> string list \<times> world" where
  "read_file_sentences ev w file_path =
     (let ext = file_ext file_path
      in if ext = ''xml'' then read_xml_sentences w file_path
         else if ext = ''html'' then read_html_sentences ev w file_path
         else if ext = ''txt'' then read_txt_sentences w file_path
         else ([], print (cross_mark @ '' Unsupported file type: '' @ ext) w))"

subsection \<open>Chunk Partitioner\<close>

definition chunk_size :: nat where
  "chunk_size = 400"

text \<open>
  \<^verbatim>\<open>[sentences[i:i + chunk_size] for i in range(0, len(sentences), chunk_size)]\<close>
\<close>

definition chunks_of :: "nat \<Rightarrow> 'a list \<Rightarrow> 'a list list" where
  "chunks_of csize sentences =
     map (\<lambda>i. slice sentences i (i + csize)) (range_step 0 (length sentences) csize)"

subsection \<open>Chunk Analyzer\<close>

definition nl :: string where
  "nl = [CHR 0x0A]"

definition chunk_prompt :: "string list \<Rightarrow> nat \<Rightarrow> nat \<Rightarrow> string" where
  "chunk_prompt sentences chunk_num total_chunks =
     join nl
       [''Extract key information from this regulatory document chunk ''
          @ str_nat chunk_num @ ''/'' @ str_nat total_chunks @ '':'',
        [],
        join nl sentences,
        [],
        ''Extract:'',
        ''1. Key provisions and financial amounts'',
        ''2. Affected sectors and companies'',
        ''3. Implementation timelines'',
        ''4. Economic impacts'',
        [],
        ''Be concise and factual.'']"

text \<open>
  One call of the completion service: the prompt is logged, and the call's number
  is the number of calls made before it.
\<close>

definition call_converse :: "env \<Rightarrow> string \<Rightarrow> world \<Rightarrow> (string + string) \<times> world" where
  "call_converse ev prompt w =
     (converse ev (length (prompts w)) prompt, w\<lparr>prompts := prompts w @ [prompt]\<rparr>)"

definition analyze_chunk ::
    "env \<Rightarrow> string list \<Rightarrow> nat \<Rightarrow> nat \<Rightarrow> world \<Rightarrow> string \<times> world" where
  "analyze_chunk ev sentences chunk_num total_chunks w =
     (case call_converse ev (chunk_prompt sentences chunk_num total_chunks) w of
        (Inr text, w') \<Rightarrow> (text, w')
      | (Inl e, w') \<Rightarrow> (''Chunk '' @ str_nat chunk_num @ '' analysis failed: '' @ e, w'))"

subsection \<open>Fusion Synthesizer\<close>

text \<open>
  The fixed part of the consolidation prompt, from the line after the chunk
  analyses to the end, line by line.
\<close>

definition fusion_instructions :: "string list" where
  "fusion_instructions =
       [''Provide EXACTLY this structure:'',
        [],
        ''1. BILL SUMMARY:'',
        ''[Key facts about the bill - what it does, main provisions, budget amounts]'',
        [],
        ''2. TOP 5 IMPACTED SECTORS:'',
        ''Sector 1: [Name] - Impact Score: [1-10] - [Description]'',
        ''Sector 2: [Name] - Impact Score: [1-10] - [Description] '',
        ''Sector 3: [Name] - Impact Score: [1-10] - [Description]'',
        ''Sector 4: [Name] - Impact Score: [1-10] - [Description]'',
        ''Sector 5: [Name] - Impact Score: [1-10] - [Description]'',
        [],
        ''3. TOP 3 STOCKS PER SECTOR:'',
        ''Sector 1 Stocks:'',
        ''- [TICKER]: [Company] - [Impact description]'',
        ''- [TICKER]: [Company] - [Impact description]'',
        ''- [TICKER]: [Company] - [Impact description]'',
        [],
        ''Sector 2 Stocks:'',
        ''- [TICKER]: [Company] - [Impact description]'',
        ''- [TICKER]: [Company] - [Impact description] '',
        ''- [TICKER]: [Company] - [Impact description]'',
        [],
        ''[Continue for all 5 sectors]'',
        [],
        ''4. MARKET PREDICTIONS:'',
        ''Mid-term (6-18 months): [Predictions]'',
        ''Long-term (2-5 years): [Predictions]'',
        [],
        ''Be specific with company names and stock tickers.'']"

text \<open>
  \<^verbatim>\<open>combined_content = "\n\n".join(chunk_results)\<close> between the opening line and
  the fixed part.
\<close>

definition fusion_prompt :: "string list \<Rightarrow> string" where
  "fusion_prompt chunk_results =
     join nl
       ([''Based on these chunk analyses of a regulatory bill, provide a consolidated report:'',
         [],
         join (nl @ nl) chunk_results,
         []]
        @ fusion_instructions)"

definition fusion_analysis :: "env \<Rightarrow> string list \<Rightarrow> world \<Rightarrow> string \<times> world" where
  "fusion_analysis ev chunk_results w =
     (case call_converse ev (fusion_prompt chunk_results) w of
        (Inr text, w') \<Rightarrow> (text, w')
      | (Inl e, w') \<Rightarrow> (''Fusion analysis failed: '' @ e, w'))"

subsection \<open>The run\<close>

text \<open>
  \<^verbatim>\<open>for i, chunk in enumerate(chunks, 1): ... results.append(f"CHUNK {i}:\n{result}")\<close>
\<close>

fun analyze_chunks ::
    "env \<Rightarrow> nat \<Rightarrow> nat \<Rightarrow> string list list \<Rightarrow> string list \<Rightarrow> world
      \<Rightarrow> string list \<times> world" where
  "analyze_chunks ev total_chunks i [] results w = (results, w)"
| "analyze_chunks ev total_chunks i (chunk # rest) results w =
     (case analyze_chunk ev chunk i total_chunks w of
        (result, w') \<Rightarrow>
          analyze_chunks ev total_chunks (i + 1) rest
            (results @ [''CHUNK '' @ str_nat i @ '':'' @ nl @ result]) w')"

text \<open>
  \<^verbatim>\<open>base_name = os.path.splitext(os.path.basename(file_path))[0]\<close> and
  \<^verbatim>\<open>output_file = f"consolidated_analysis_{base_name}.txt"\<close>
\<close>

definition output_file :: "string \<Rightarrow> string" where
  "output_file file_path =
     ''consolidated_analysis_'' @ fst (splitext (basename file_path)) @ ''.txt''"

text \<open>
  How the process ends: \<open>Returned\<close> when \<^verbatim>\<open>main\<close> returns (exit status 0),
  \<open>Raised\<close> when an exception leaves \<^verbatim>\<open>main\<close> (a traceback, exit status 1).
\<close>

datatype exit = Returned | Raised

fun exit_status :: "exit \<Rightarrow> nat" where
  "exit_status Returned = 0"
| "exit_status Raised = 1"

definition rule_line :: string where
  "rule_line = replicate 80 (CHR ''='')"

text \<open>The two \<^verbatim>\<open>print\<close> calls that open a run.\<close>

definition start_banner :: "string \<Rightarrow> world \<Rightarrow> world" where
  "start_banner file_path w =
     print (page_facing_up @ '' File: '' @ file_path)
       (print (rocket @ '' Starting Complete Document Analysis'') w)"

text \<open>The five \<^verbatim>\<open>print\<close> calls that show the final report.\<close>

definition print_report :: "string \<Rightarrow> world \<Rightarrow> world" where
  "print_report final_report w =
     print rule_line
       (print final_report
         (print rule_line
           (print (bar_chart @ '' CONSOLIDATED FINANCIAL IMPACT ANALYSIS'')
             (print rule_line w))))"

text \<open>\<^verbatim>\<open>with open(output_file, 'w') as f: f.write(final_report)\<close>\<close>

definition write_text :: "env \<Rightarrow> string \<Rightarrow> string \<Rightarrow> world \<Rightarrow> exit \<times> world" where
  "write_text ev path text w =
     (if writable ev path
      then (Returned, w\<lparr>files := (files w)(path \<mapsto> Inr text)\<rparr>)
      else (Raised, w))"

text \<open>\<^verbatim>\<open>main\<close>, with \<^verbatim>\<open>sys.argv\<close> as its argument.\<close>

definition main :: "env \<Rightarrow> string list \<Rightarrow> world \<Rightarrow> exit \<times> world" where
  "main ev argv w =
     (if length argv \<noteq> 2
      then (Returned, print ''Usage: python chunked_analyzer.py <file>'' w)
      else
        let file_path = argv ! 1 in
        if files w file_path = None
        then (Returned, print (cross_mark @ '' File not found: '' @ file_path) w)
        else
          case read_file_sentences ev (start_banner file_path w) file_path of
               (sentences, w2) \<Rightarrow>
                 if sentences = [] then (Returned, w2)
                 else
                   let chunks = chunks_of chunk_size sentences
                   in case analyze_chunks ev (length chunks) 1 chunks [] w2 of
                        (results, w3) \<Rightarrow>
                          case fusion_analysis ev results w3 of
                            (final_report, w4) \<Rightarrow>
                              write_text ev (output_file file_path) final_report
                                (print_report final_report w4))"

subsection \<open>The calls of a run as functions of the call number\<close>

text \<open>
  What \<^const>\<open>analyze_chunk\<close> and \<^const>\<open>fusion_analysis\<close> return when their call
  is the \<open>call_no\<close>-th of the run, and the list \<^verbatim>\<open>results\<close> that the loop of
  \<^verbatim>\<open>main\<close> has built when the first call of the loop is number \<open>base\<close>.
\<close>

definition chunk_reply :: "env \<Rightarrow> nat \<Rightarrow> string list \<Rightarrow> nat \<Rightarrow> nat \<Rightarrow> string" where
  "chunk_reply ev call_no sentences chunk_num total_chunks =
     (case converse ev call_no (chunk_prompt sentences chunk_num total_chunks) of
        Inr text \<Rightarrow> text
      | Inl e \<Rightarrow> ''Chunk '' @ str_nat chunk_num @ '' analysis failed: '' @ e)"

definition fusion_reply :: "env \<Rightarrow> nat \<Rightarrow> string list \<Rightarrow> string" where
  "fusion_reply ev call_no chunk_results =
     (case converse ev call_no (fusion_prompt chunk_results) of
        Inr text \<Rightarrow> text
      | Inl e \<Rightarrow> ''Fusion analysis failed: '' @ e)"

definition chunk_prompts :: "string list list \<Rightarrow> string list" where
  "chunk_prompts chunks =
     map (\<lambda>k. chunk_prompt (chunks ! k) (Suc k) (length chunks)) [0..<length chunks]"

definition labelled_results :: "env \<Rightarrow> nat \<Rightarrow> string list list \<Rightarrow> string list" where
  "labelled_results ev base chunks =
     map (\<lambda>k. ''CHUNK '' @ str_nat (Suc k) @ '':'' @ nl
                @ chunk_reply ev (base + k) (chunks ! k) (Suc k) (length chunks))
       [0..<length chunks]"

text \<open>
  The units that \<^verbatim>\<open>main\<close> gets from the loader, and the final report of a run
  that starts in \<open>w\<close> with these units.
\<close>

definition loaded :: "env \<Rightarrow> world \<Rightarrow> string \<Rightarrow> string list" where
  "loaded ev w file_path = fst (read_file_sentences ev (start_banner file_path w) file_path)"

definition final_report :: "env \<Rightarrow> world \<Rightarrow> string list \<Rightarrow> string" where
  "final_report ev w sentences =
     fusion_reply ev (length (prompts w) + length (chunks_of chunk_size sentences))
       (labelled_results ev (length (prompts w)) (chunks_of chunk_size sentences))"

text \<open>Fragments put back together around the separators that were cut out.\<close>

fun weave :: "string list \<Rightarrow> string list \<Rightarrow> string" where
  "weave [] seps = []"
| "weave [f] seps = f"
| "weave (f # g # fs) [] = f @ weave (g # fs) []"
| "weave (f # g # fs) (s # seps) = f @ s @ weave (g # fs) seps"

subsection \<open>Sample runs\<close>

text \<open>
  A two-sentence plain-text bill, a service that answers every call, one whose
  first call times out, one whose second call (the fusion of a one-chunk run)
  times out, one that answers every call with another text, and a directory with a PDF, an empty text file and a file whose
  whole name is \<^verbatim>\<open>xml\<close>.
\<close>

definition bill_world :: world where
  "bill_world =
     \<lparr>files = [''bill.txt'' \<mapsto>
                 Inr ''The bill funds clean energy. It grants tax credits to producers.''],
      stdout = [], prompts = []\<rparr>"

definition steady_env :: env where
  "steady_env =
     \<lparr>converse = (\<lambda>k prompt. Inr ''1. BILL SUMMARY: clean energy funding''),
      get_text = Inr, writable = (\<lambda>path. True)\<rparr>"

definition first_call_fails :: env where
  "first_call_fails =
     \<lparr>converse = (\<lambda>k prompt. if k = 0 then Inl ''Read timed out''
                                else Inr ''1. BILL SUMMARY: partial''),
      get_text = Inr, writable = (\<lambda>path. True)\<rparr>"

definition second_call_fails :: env where
  "second_call_fails =
     \<lparr>converse = (\<lambda>k prompt. if k = 1 then Inl ''Read timed out''
                                else Inr ''Provisions: tax credits''),
      get_text = Inr, writable = (\<lambda>path. True)\<rparr>"

definition revised_env :: env where
  "revised_env =
     \<lparr>converse = (\<lambda>k prompt. Inr ''1. BILL SUMMARY: revised''),
      get_text = Inr, writable = (\<lambda>path. True)\<rparr>"

definition odd_world :: world where
  "odd_world =
     \<lparr>files = [''notes.pdf'' \<mapsto> Inr ''The bill funds clean energy.'',
               ''empty.txt'' \<mapsto> Inr [],
               ''xml'' \<mapsto> Inr ''<p>The bill funds clean energy.</p>''],
      stdout = [], prompts = []\<rparr>"

text \<open>A text of \<open>n + 1\<close> equal sentences, one blank between two of them.\<close>

definition many_sentences :: "nat \<Rightarrow> string" where
  "many_sentences n =
     concat (replicate n ''The bill funds clean energy. '') @ ''The bill funds clean energy.''"

text \<open>An uploaded plain-text file of 801 sentences, which makes three chunks.\<close>

definition long_world :: world where
  "long_world =
     \<lparr>files = [''uploads/long.txt'' \<mapsto> Inr (many_sentences 800)],
      stdout = [], prompts = []\<rparr>"

section \<open>Properties\<close>

subsection \<open>Chunk Partitioner\<close>

lemma ceil_div_less_iff:
  fixes k n c :: nat
  assumes "0 < c"
  shows "k < (n + c - 1) div c \<longleftrightarrow> k * c < n"
proof -
  have "k < (n + c - 1) div c \<longleftrightarrow> Suc k \<le> (n + c - 1) div c" by auto
  also have "\<dots> \<longleftrightarrow> Suc k * c \<le> n + c - 1"
    using assms by (simp add: less_eq_div_iff_mult_less_eq)
  also have "\<dots> \<longleftrightarrow> k * c < n" using assms by (cases c) auto
  finally show ?thesis .
qed

lemma ceil_div_cover:
  fixes n c :: nat
  assumes "0 < c"
  shows "n \<le> ((n + c - 1) div c) * c"
proof (rule ccontr)
  assume "\<not> n \<le> ((n + c - 1) div c) * c"
  then have "((n + c - 1) div c) * c < n" by simp
  then have "(n + c - 1) div c < (n + c - 1) div c"
    using ceil_div_less_iff [OF assms, of "(n + c - 1) div c" n] by simp
  then show False by simp
qed

lemma ceiling_div_nat:
  fixes n c :: nat
  assumes "0 < c"
  shows "\<lceil>real n / real c\<rceil> = int ((n + c - 1) div c)"
proof (rule ceiling_unique)
  define m where "m = (n + c - 1) div c"
  have "n \<le> m * c" unfolding m_def by (rule ceil_div_cover [OF assms])
  then have "real n \<le> real m * real c" by (metis of_nat_le_iff of_nat_mult)
  then show "real n / real c \<le> of_int (int ((n + c - 1) div c))"
    using assms by (simp add: m_def divide_le_eq)
  show "of_int (int ((n + c - 1) div c)) - 1 < real n / real c"
  proof (cases m)
    case 0
    have "0 \<le> real n / real c" by simp
    then have "- 1 < real n / real c" by linarith
    then show ?thesis using 0 by (simp add: m_def)
  next
    case (Suc k)
    then have "k < (n + c - 1) div c" by (simp add: m_def)
    then have "k * c < n" using ceil_div_less_iff [OF assms] by simp
    then have "real k * real c < real n" by (metis of_nat_less_iff of_nat_mult)
    then have "real k < real n / real c" using assms by (simp add: less_divide_eq)
    then show ?thesis using Suc by (simp add: m_def)
  qed
qed

text \<open>The offsets \<^verbatim>\<open>range(i, n, c)\<close> visits are \<open>i\<close>, \<open>i + c\<close>, \<open>i + 2c\<close>, ...\<close>

lemma range_step_closed:
  "0 < c \<Longrightarrow> range_step i n c = map (\<lambda>k. i + k * c) [0..<(n - i + c - 1) div c]"
proof (induction i n c rule: range_step.induct)
  case (1 i n c)
  show ?case
  proof (cases "i < n")
    case False
    then have "n - i + c - 1 < c" using "1.prems" by simp
    then have "(n - i + c - 1) div c = 0" by simp
    moreover have "range_step i n c = []"
      using False by (subst range_step.simps) simp
    ultimately show ?thesis by simp
  next
    case True
    define m where "m = (n - (i + c) + c - 1) div c"
    have m: "(n - i + c - 1) div c = Suc m"
    proof (cases "i + c \<le> n")
      case True
      then have e: "n - i + c - 1 = (n - (i + c) + c - 1) + c" using "1.prems" by simp
      have "(x + c) div c = Suc (x div c)" for x :: nat
        using "1.prems" by (simp add: div_add_self2)
      then have "((n - (i + c) + c - 1) + c) div c = Suc m" unfolding m_def .
      then show ?thesis by (simp only: e)
    next
      case False
      then have "m = 0" using "1.prems" by (simp add: m_def)
      moreover have "c \<le> n - i + c - 1" "n - i + c - 1 < 2 * c"
        using True False by simp_all
      then have "(n - i + c - 1) div c = 1"
        by (intro div_nat_eqI) simp_all
      ultimately show ?thesis by simp
    qed
    have "range_step i n c = i # range_step (i + c) n c"
      using True "1.prems" by (subst range_step.simps) simp
    also have "range_step (i + c) n c = map (\<lambda>k. i + c + k * c) [0..<m]"
      using "1.IH" True "1.prems" by (simp add: m_def)
    finally show ?thesis
      unfolding m by (simp add: map_upt_Suc add.assoc del: upt_Suc)
  qed
qed

lemma chunks_of_closed:
  assumes "0 < c"
  shows "chunks_of c s = map (\<lambda>k. take c (drop (k * c) s)) [0..<(length s + c - 1) div c]"
  using assms by (simp add: chunks_of_def slice_def range_step_closed)

lemma concat_chunks_take:
  "concat (map (\<lambda>k. take c (drop (k * c) s)) [0..<m]) = take (m * c) s"
proof (induction m)
  case 0
  show ?case by simp
next
  case (Suc m)
  have "take (m * c + c) s = take (m * c) s @ take c (drop (m * c) s)"
    by (rule take_add)
  then have "take (Suc m * c) s = take (m * c) s @ take c (drop (m * c) s)"
    by (simp add: add.commute)
  with Suc show ?case by simp
qed

text \<open>
  C2. With the chunk size 400 of the source, a sequence of \<open>N\<close> units is cut into
  exactly \<open>\<lceil>N / 400\<rceil>\<close> chunks; no chunk is empty; the \<open>k\<close>-th chunk (counted
  from 0) is the contiguous slice of 400 units that starts at unit \<open>400 k\<close>, so
  chunks neither overlap nor leave a gap nor reorder; every chunk but the last
  holds 400 units; and the chunks concatenated give back the sequence.
\<close>

theorem partition_exact:
  fixes sentences :: "string list"
  shows
  "chunk_size = 400
   \<and> int (length (chunks_of chunk_size sentences))
       = \<lceil>real (length sentences) / real chunk_size\<rceil>
   \<and> (\<forall>chunk \<in> set (chunks_of chunk_size sentences). chunk \<noteq> [])
   \<and> (\<forall>k < length (chunks_of chunk_size sentences).
         chunks_of chunk_size sentences ! k
           = take chunk_size (drop (k * chunk_size) sentences))
   \<and> (\<forall>k. Suc k < length (chunks_of chunk_size sentences) \<longrightarrow>
         length (chunks_of chunk_size sentences ! k) = chunk_size)
   \<and> concat (chunks_of chunk_size sentences) = sentences"
proof -
  have c: "0 < chunk_size" by (simp add: chunk_size_def)
  define m where "m = (length sentences + chunk_size - 1) div chunk_size"
  define cs where "cs = chunks_of chunk_size sentences"
  have cl: "cs = map (\<lambda>k. take chunk_size (drop (k * chunk_size) sentences)) [0..<m]"
    unfolding cs_def m_def by (rule chunks_of_closed [OF c])
  have len: "length cs = m" by (simp add: cl)
  have ceil: "int (length cs) = \<lceil>real (length sentences) / real chunk_size\<rceil>"
    unfolding len m_def by (rule ceiling_div_nat [OF c, symmetric])
  have nth: "cs ! k = take chunk_size (drop (k * chunk_size) sentences)"
    if "k < length cs" for k using that by (simp add: cl)
  have lt: "k * chunk_size < length sentences" if "k < length cs" for k
    using that ceil_div_less_iff [OF c, of k "length sentences"] by (simp add: len m_def)
  have ne: "chunk \<noteq> []" if "chunk \<in> set cs" for chunk
  proof -
    from that obtain k where k: "k < length cs" "chunk = cs ! k"
      by (auto simp: in_set_conv_nth)
    have "drop (k * chunk_size) sentences \<noteq> []" using lt [OF k(1)] by simp
    then show ?thesis using c by (simp add: k(2) nth [OF k(1)])
  qed
  have full: "length (cs ! k) = chunk_size" if "Suc k < length cs" for k
  proof -
    have "Suc k * chunk_size < length sentences" using lt [OF that] .
    moreover have "k < length cs" using that by simp
    ultimately show ?thesis by (simp add: nth)
  qed
  have "length sentences \<le> m * chunk_size"
    unfolding m_def by (rule ceil_div_cover [OF c])
  then have cat: "concat cs = sentences"
    by (simp add: cl concat_chunks_take)
  have "chunk_size = 400" by (rule chunk_size_def)
  with ceil ne nth full cat show ?thesis
    unfolding cs_def by blast
qed

theorem partition_exact_witness:
  "length (chunks_of chunk_size (replicate 801 ''A sentence of the text.'')) = 3
   \<and> chunks_of chunk_size (replicate 801 ''A sentence of the text.'') ! 2
       = [''A sentence of the text.'']
   \<and> length (chunks_of chunk_size (replicate 801 ''A sentence of the text.'') ! 1) = 400"
proof -
  let ?X = "chunks_of chunk_size (replicate 801 ''A sentence of the text.'')"
  note t = partition_exact [of "replicate 801 ''A sentence of the text.''"]
  from t have "int (length ?X) = \<lceil>real (801::nat) / real chunk_size\<rceil>"
    by simp
  also have "\<dots> = 3" by (simp add: chunk_size_def ceiling_divide_eq_div_numeral)
  finally have len: "length ?X = 3"
    by simp
  from t have nth: "2 < length ?X \<Longrightarrow>
      ?X ! 2 = take chunk_size (drop (2 * chunk_size) (replicate 801 ''A sentence of the text.''))"
    by blast
  have "?X ! 2 = take chunk_size (drop (2 * chunk_size) (replicate 801 ''A sentence of the text.''))"
    by (rule nth) (simp add: len)
  then have two: "?X ! 2 = [''A sentence of the text.'']"
    by (simp add: chunk_size_def)
  from t have full: "Suc 1 < length ?X \<Longrightarrow> length (?X ! 1) = chunk_size"
    by blast
  have "length (?X ! 1) = chunk_size"
    by (rule full) (simp add: len)
  then have "length (?X ! 1) = 400"
    by (simp add: chunk_size_def)
  with len two show ?thesis by simp
qed

subsection \<open>The run in closed form\<close>

lemma analyze_chunk_eq:
  "analyze_chunk ev s n t w =
     (chunk_reply ev (length (prompts w)) s n t, w\<lparr>prompts := prompts w @ [chunk_prompt s n t]\<rparr>)"
  by (simp add: analyze_chunk_def call_converse_def chunk_reply_def split: sum.splits)

lemma fusion_analysis_eq:
  "fusion_analysis ev rs w =
     (fusion_reply ev (length (prompts w)) rs, w\<lparr>prompts := prompts w @ [fusion_prompt rs]\<rparr>)"
  by (simp add: fusion_analysis_def call_converse_def fusion_reply_def split: sum.splits)

lemma analyze_chunks_closed:
  "analyze_chunks ev t i chunks results w =
     (results @ map (\<lambda>k. ''CHUNK '' @ str_nat (i + k) @ '':'' @ nl
                          @ chunk_reply ev (length (prompts w) + k) (chunks ! k) (i + k) t)
                 [0..<length chunks],
      w\<lparr>prompts := prompts w @ map (\<lambda>k. chunk_prompt (chunks ! k) (i + k) t) [0..<length chunks]\<rparr>)"
proof (induction chunks arbitrary: i results w)
  case Nil
  show ?case by simp
next
  case (Cons chunk rest)
  show ?case
    by (simp add: analyze_chunk_eq Cons.IH map_upt_Suc del: upt_Suc)
qed

lemma length_chunk_prompts [simp]: "length (chunk_prompts chunks) = length chunks"
  by (simp add: chunk_prompts_def)

lemma length_labelled_results [simp]: "length (labelled_results ev base chunks) = length chunks"
  by (simp add: labelled_results_def)

lemma analyze_chunks_main:
  "analyze_chunks ev (length chunks) (Suc 0) chunks [] w =
     (labelled_results ev (length (prompts w)) chunks,
      w\<lparr>prompts := prompts w @ chunk_prompts chunks\<rparr>)"
  by (simp add: analyze_chunks_closed labelled_results_def chunk_prompts_def)

lemma read_file_sentences_keeps:
  assumes "read_file_sentences ev w p = (s, w')"
  shows "prompts w' = prompts w" and "files w' = files w"
  using assms
  by (auto simp: read_file_sentences_def read_xml_sentences_def read_html_sentences_def
      read_txt_sentences_def print_def Let_def split: if_splits sum.splits)

lemma print_report_keeps [simp]:
  "prompts (print_report r w) = prompts w" "files (print_report r w) = files w"
  by (simp_all add: print_report_def print_def)

lemma start_banner_keeps [simp]:
  "prompts (start_banner p w) = prompts w" "files (start_banner p w) = files w"
  by (simp_all add: start_banner_def print_def)

lemma write_text_keeps [simp]:
  "prompts (snd (write_text ev p t w)) = prompts w"
  by (simp add: write_text_def)

lemma main_run:
  assumes "files w path \<noteq> None" and "loaded ev w path \<noteq> []"
  shows "\<exists>w4. main ev [prog, path] w =
           write_text ev (output_file path) (final_report ev w (loaded ev w path)) w4
         \<and> files w4 = files w
         \<and> prompts w4 = prompts w @ chunk_prompts (chunks_of chunk_size (loaded ev w path))
             @ [fusion_prompt (labelled_results ev (length (prompts w))
                                (chunks_of chunk_size (loaded ev w path)))]"
proof -
  obtain sentences w2
    where rd: "read_file_sentences ev (start_banner path w) path = (sentences, w2)"
    by (cases "read_file_sentences ev (start_banner path w) path")
  have ld: "loaded ev w path = sentences" by (simp add: loaded_def rd)
  have ne: "sentences \<noteq> []" using assms(2) ld by simp
  have p2: "prompts w2 = prompts w" and f2: "files w2 = files w"
    using read_file_sentences_keeps [OF rd] by simp_all
  let ?r = "final_report ev w sentences"
  let ?w4 = "print_report ?r
      (w2\<lparr>prompts := prompts w @ chunk_prompts (chunks_of chunk_size sentences)
              @ [fusion_prompt (labelled_results ev (length (prompts w))
                                 (chunks_of chunk_size sentences))]\<rparr>)"
  have "main ev [prog, path] w = write_text ev (output_file path) ?r ?w4"
    unfolding main_def Let_def
    by (simp add: ne assms(1) rd analyze_chunks_main fusion_analysis_eq p2 final_report_def)
  moreover have "files ?w4 = files w" by (simp add: f2)
  moreover have "prompts ?w4 = prompts w @ chunk_prompts (chunks_of chunk_size sentences)
             @ [fusion_prompt (labelled_results ev (length (prompts w))
                                (chunks_of chunk_size sentences))]" by simp
  ultimately show ?thesis unfolding ld by blast
qed

lemma main_run_written:
  assumes "files w path \<noteq> None" and "loaded ev w path \<noteq> []"
    and "writable ev (output_file path)"
  shows "fst (main ev [prog, path] w) = Returned"
    and "files (snd (main ev [prog, path] w))
           = (files w)(output_file path \<mapsto> Inr (final_report ev w (loaded ev w path)))"
    and "prompts (snd (main ev [prog, path] w))
           = prompts w @ chunk_prompts (chunks_of chunk_size (loaded ev w path))
             @ [fusion_prompt (labelled_results ev (length (prompts w))
                                (chunks_of chunk_size (loaded ev w path)))]"
proof -
  from main_run [OF assms(1,2), of prog] obtain w4 where
    m: "main ev [prog, path] w =
           write_text ev (output_file path) (final_report ev w (loaded ev w path)) w4"
    and f: "files w4 = files w"
    and p: "prompts w4 = prompts w @ chunk_prompts (chunks_of chunk_size (loaded ev w path))
             @ [fusion_prompt (labelled_results ev (length (prompts w))
                                (chunks_of chunk_size (loaded ev w path)))]"
    by blast
  show "fst (main ev [prog, path] w) = Returned"
    by (simp add: m write_text_def assms(3))
  show "files (snd (main ev [prog, path] w))
           = (files w)(output_file path \<mapsto> Inr (final_report ev w (loaded ev w path)))"
    by (simp add: m write_text_def assms(3) f)
  show "prompts (snd (main ev [prog, path] w))
           = prompts w @ chunk_prompts (chunks_of chunk_size (loaded ev w path))
             @ [fusion_prompt (labelled_results ev (length (prompts w))
                                (chunks_of chunk_size (loaded ev w path)))]"
    by (simp add: m p)
qed

text \<open>
  C1. In a run that reaches the analysis (the file exists and the loader returns
  units), let the completion call for chunk \<open>k + 1\<close> raise with diagnostic
  \<open>d\<close>. The Chunk Analyzer then returns the text
  \<open>Chunk <k + 1> analysis failed: <d>\<close> instead of raising, this text is the
  result stored for that ordinal, every chunk call and the fusion call are still
  made, and the run returns normally with the consolidated report written to the
  artifact (the artifact being writable, as for any run).
\<close>

theorem chunk_failure_contained:
  assumes "files w path \<noteq> None" and "loaded ev w path \<noteq> []"
    and "k < length (chunks_of chunk_size (loaded ev w path))"
    and "converse ev (length (prompts w) + k)
           (chunk_prompt (chunks_of chunk_size (loaded ev w path) ! k) (Suc k)
              (length (chunks_of chunk_size (loaded ev w path)))) = Inl d"
    and "writable ev (output_file path)"
  shows "(\<forall>wk. length (prompts wk) = length (prompts w) + k \<longrightarrow>
            fst (analyze_chunk ev (chunks_of chunk_size (loaded ev w path) ! k) (Suc k)
                   (length (chunks_of chunk_size (loaded ev w path))) wk)
            = ''Chunk '' @ str_nat (Suc k) @ '' analysis failed: '' @ d)
       \<and> labelled_results ev (length (prompts w)) (chunks_of chunk_size (loaded ev w path)) ! k
           = ''CHUNK '' @ str_nat (Suc k) @ '':'' @ nl
               @ ''Chunk '' @ str_nat (Suc k) @ '' analysis failed: '' @ d
       \<and> fst (main ev [prog, path] w) = Returned
       \<and> files (snd (main ev [prog, path] w)) (output_file path)
           = Some (Inr (final_report ev w (loaded ev w path)))
       \<and> final_report ev w (loaded ev w path)
           = fusion_reply ev (length (prompts w) + length (chunks_of chunk_size (loaded ev w path)))
               (labelled_results ev (length (prompts w)) (chunks_of chunk_size (loaded ev w path)))
       \<and> length (prompts (snd (main ev [prog, path] w)))
           = length (prompts w) + length (chunks_of chunk_size (loaded ev w path)) + 1"
proof -
  let ?cs = "chunks_of chunk_size (loaded ev w path)"
  have r: "chunk_reply ev (length (prompts w) + k) (?cs ! k) (Suc k) (length ?cs)
           = ''Chunk '' @ str_nat (Suc k) @ '' analysis failed: '' @ d"
    by (simp add: chunk_reply_def assms(4))
  have a: "fst (analyze_chunk ev (?cs ! k) (Suc k) (length ?cs) wk)
            = ''Chunk '' @ str_nat (Suc k) @ '' analysis failed: '' @ d"
    if "length (prompts wk) = length (prompts w) + k" for wk
    by (simp add: analyze_chunk_eq that r)
  have b: "labelled_results ev (length (prompts w)) ?cs ! k
           = ''CHUNK '' @ str_nat (Suc k) @ '':'' @ nl
               @ ''Chunk '' @ str_nat (Suc k) @ '' analysis failed: '' @ d"
    using assms(3) by (simp add: labelled_results_def r)
  note m = main_run_written [OF assms(1,2,5), of prog]
  have c: "files (snd (main ev [prog, path] w)) (output_file path)
           = Some (Inr (final_report ev w (loaded ev w path)))"
    by (simp add: m(2))
  have e: "length (prompts (snd (main ev [prog, path] w))) = length (prompts w) + length ?cs + 1"
    by (simp add: m(3))
  from a b m(1) c e show ?thesis
    by (simp add: final_report_def)
qed


theorem chunk_failure_contained_witness:
  "fst (main first_call_fails [''chunked_analyzer.py'', ''bill.txt''] bill_world) = Returned
   \<and> files (snd (main first_call_fails [''chunked_analyzer.py'', ''bill.txt''] bill_world))
         ''consolidated_analysis_bill.txt''
       = Some (Inr ''1. BILL SUMMARY: partial'')
   \<and> labelled_results first_call_fails 0
         [[''The bill funds clean energy.'', ''It grants tax credits to producers.'']] ! 0
       = ''CHUNK 1:'' @ nl @ ''Chunk 1 analysis failed: Read timed out''"
proof -
  have ld: "loaded first_call_fails bill_world ''bill.txt''
            = [''The bill funds clean energy.'', ''It grants tax credits to producers.'']"
    by code_simp
  have cs: "chunks_of chunk_size
              [''The bill funds clean energy.'', ''It grants tax credits to producers.'']
            = [[''The bill funds clean energy.'', ''It grants tax credits to producers.'']]"
    by code_simp
  have out: "output_file ''bill.txt'' = ''consolidated_analysis_bill.txt''"
    by code_simp
  have h1: "files bill_world ''bill.txt'' \<noteq> None" by (simp add: bill_world_def)
  have h2: "loaded first_call_fails bill_world ''bill.txt'' \<noteq> []" by (simp add: ld)
  have h3: "0 < length (chunks_of chunk_size (loaded first_call_fails bill_world ''bill.txt''))"
    by (simp add: ld cs)
  have h4: "converse first_call_fails (length (prompts bill_world) + 0)
           (chunk_prompt (chunks_of chunk_size (loaded first_call_fails bill_world ''bill.txt'') ! 0)
              (Suc 0)
              (length (chunks_of chunk_size (loaded first_call_fails bill_world ''bill.txt''))))
           = Inl ''Read timed out''"
    by (simp add: first_call_fails_def bill_world_def)
  have h5: "writable first_call_fails (output_file ''bill.txt'')"
    by (simp add: first_call_fails_def)
  note t = chunk_failure_contained [OF h1 h2 h3 h4 h5, of "''chunked_analyzer.py''"]
  have s1: "str_nat (Suc 0) = ''1''" by code_simp
  have fr: "final_report first_call_fails bill_world
              [''The bill funds clean energy.'', ''It grants tax credits to producers.'']
            = ''1. BILL SUMMARY: partial''"
    by (simp add: final_report_def fusion_reply_def first_call_fails_def bill_world_def cs)
  have p0: "prompts bill_world = []" by (simp add: bill_world_def)
  from t show ?thesis
    by (simp add: ld cs out s1 fr p0)
qed

lemma join_Cons: "xs \<noteq> [] \<Longrightarrow> join sep (x # xs) = x @ sep @ join sep xs"
  by (cases xs) simp_all

lemma fusion_prompt_shape:
  "fusion_prompt rs =
     ''Based on these chunk analyses of a regulatory bill, provide a consolidated report:''
       @ nl @ nl @ join (nl @ nl) rs @ nl @ nl @ join nl fusion_instructions"
proof -
  have ne: "fusion_instructions \<noteq> []" by (simp add: fusion_instructions_def)
  show ?thesis
    by (simp add: fusion_prompt_def join_Cons ne)
qed

text \<open>
  C7. In a run that reaches the fusion, let the fusion call raise with diagnostic
  \<open>d\<close>. The Fusion Synthesizer returns \<open>Fusion analysis failed: <d>\<close> instead of
  raising; this marker is the final report; the run returns normally and the
  artifact holds the marker (the artifact being writable). The marker differs
  from every text that opens with the first heading of the requested structure,
  \<open>1. BILL SUMMARY:\<close>.
\<close>

theorem fusion_failure_marker:
  assumes "files w path \<noteq> None" and "loaded ev w path \<noteq> []"
    and "converse ev (length (prompts w) + length (chunks_of chunk_size (loaded ev w path)))
           (fusion_prompt (labelled_results ev (length (prompts w))
                             (chunks_of chunk_size (loaded ev w path)))) = Inl d"
    and "writable ev (output_file path)"
  shows "(\<forall>w3. length (prompts w3)
                 = length (prompts w) + length (chunks_of chunk_size (loaded ev w path)) \<longrightarrow>
            fst (fusion_analysis ev (labelled_results ev (length (prompts w))
                                       (chunks_of chunk_size (loaded ev w path))) w3)
            = ''Fusion analysis failed: '' @ d)
       \<and> final_report ev w (loaded ev w path) = ''Fusion analysis failed: '' @ d
       \<and> fst (main ev [prog, path] w) = Returned
       \<and> files (snd (main ev [prog, path] w)) (output_file path)
           = Some (Inr (''Fusion analysis failed: '' @ d))
       \<and> (\<forall>r. prefix ''1. BILL SUMMARY:'' r \<longrightarrow> r \<noteq> ''Fusion analysis failed: '' @ d)"
proof -
  let ?cs = "chunks_of chunk_size (loaded ev w path)"
  let ?R = "labelled_results ev (length (prompts w)) ?cs"
  have a: "fst (fusion_analysis ev ?R w3) = ''Fusion analysis failed: '' @ d"
    if "length (prompts w3) = length (prompts w) + length ?cs" for w3
    by (simp add: fusion_analysis_eq fusion_reply_def that assms(3))
  have b: "final_report ev w (loaded ev w path) = ''Fusion analysis failed: '' @ d"
    by (simp add: final_report_def fusion_reply_def assms(3))
  note m = main_run_written [OF assms(1,2,4), of prog]
  have c: "files (snd (main ev [prog, path] w)) (output_file path)
           = Some (Inr (''Fusion analysis failed: '' @ d))"
    by (simp add: m(2) b)
  have e: "r \<noteq> ''Fusion analysis failed: '' @ d" if "prefix ''1. BILL SUMMARY:'' r" for r
    using that by (auto simp: prefix_def)
  from a b m(1) c e show ?thesis by blast
qed

theorem fusion_failure_marker_witness:
  "fst (main second_call_fails [''chunked_analyzer.py'', ''bill.txt''] bill_world) = Returned
   \<and> files (snd (main second_call_fails [''chunked_analyzer.py'', ''bill.txt''] bill_world))
         ''consolidated_analysis_bill.txt''
       = Some (Inr ''Fusion analysis failed: Read timed out'')"
proof -
  have ld: "loaded second_call_fails bill_world ''bill.txt''
            = [''The bill funds clean energy.'', ''It grants tax credits to producers.'']"
    by code_simp
  have cs: "chunks_of chunk_size
              [''The bill funds clean energy.'', ''It grants tax credits to producers.'']
            = [[''The bill funds clean energy.'', ''It grants tax credits to producers.'']]"
    by code_simp
  have out: "output_file ''bill.txt'' = ''consolidated_analysis_bill.txt''"
    by code_simp
  have p0: "prompts bill_world = []" by (simp add: bill_world_def)
  have h1: "files bill_world ''bill.txt'' \<noteq> None" by (simp add: bill_world_def)
  have h2: "loaded second_call_fails bill_world ''bill.txt'' \<noteq> []" by (simp add: ld)
  have cv: "converse second_call_fails (Suc 0) p = Inl ''Read timed out''" for p
    by (simp add: second_call_fails_def)
  have h3: "converse second_call_fails
              (length (prompts bill_world)
                 + length (chunks_of chunk_size (loaded second_call_fails bill_world ''bill.txt'')))
              (fusion_prompt (labelled_results second_call_fails (length (prompts bill_world))
                 (chunks_of chunk_size (loaded second_call_fails bill_world ''bill.txt''))))
            = Inl ''Read timed out''"
    by (simp add: ld cs p0 cv)
  have h4: "writable second_call_fails (output_file ''bill.txt'')"
    by (simp add: second_call_fails_def)
  note t = fusion_failure_marker [OF h1 h2 h3 h4, of "''chunked_analyzer.py''"]
  from t show ?thesis by (simp add: out)
qed

lemma read_file_unsupported:
  assumes "file_ext p \<notin> {''xml'', ''html'', ''txt''}"
  shows "read_file_sentences ev w p
           = ([], print (cross_mark @ '' Unsupported file type: '' @ file_ext p) w)"
  using assms by (simp add: read_file_sentences_def Let_def)

lemma main_empty:
  assumes "files w path \<noteq> None" and "loaded ev w path = []"
  shows "main ev [prog, path] w
           = (Returned, snd (read_file_sentences ev (start_banner path w) path))"
proof -
  obtain sentences w2
    where rd: "read_file_sentences ev (start_banner path w) path = (sentences, w2)"
    by (cases "read_file_sentences ev (start_banner path w) path")
  have "sentences = []" using assms(2) by (simp add: loaded_def rd)
  then show ?thesis
    unfolding main_def Let_def by (simp add: assms(1) rd)
qed

text \<open>
  C4 (as amended). A run on an existing file whose format tag is none of
  \<open>xml\<close>, \<open>html\<close>, \<open>txt\<close>, or whose loader returns no unit, returns from
  \<^verbatim>\<open>main\<close> normally, which is exit status 0; no completion call has been made
  and the file system is as before, so no artifact is written. For an
  unsupported tag exactly three lines are printed: the two opening lines and
  \<open>Unsupported file type: <tag>\<close> behind the cross mark.
\<close>

theorem empty_input_returns:
  assumes "files w path \<noteq> None"
    and "file_ext path \<notin> {''xml'', ''html'', ''txt''} \<or> loaded ev w path = []"
  shows "fst (main ev [prog, path] w) = Returned
       \<and> exit_status (fst (main ev [prog, path] w)) = 0
       \<and> prompts (snd (main ev [prog, path] w)) = prompts w
       \<and> files (snd (main ev [prog, path] w)) = files w
       \<and> (file_ext path \<notin> {''xml'', ''html'', ''txt''} \<longrightarrow>
            stdout (snd (main ev [prog, path] w))
              = stdout w @ [rocket @ '' Starting Complete Document Analysis'',
                            page_facing_up @ '' File: '' @ path,
                            cross_mark @ '' Unsupported file type: '' @ file_ext path])"
proof -
  have e: "loaded ev w path = []"
    using assms(2) by (auto simp: loaded_def read_file_unsupported)
  note m = main_empty [OF assms(1) e, of prog]
  obtain sentences w2
    where rd: "read_file_sentences ev (start_banner path w) path = (sentences, w2)"
    by (cases "read_file_sentences ev (start_banner path w) path")
  have k: "prompts w2 = prompts w" "files w2 = files w"
    using read_file_sentences_keeps [OF rd] by simp_all
  have u: "stdout (snd (main ev [prog, path] w))
              = stdout w @ [rocket @ '' Starting Complete Document Analysis'',
                            page_facing_up @ '' File: '' @ path,
                            cross_mark @ '' Unsupported file type: '' @ file_ext path]"
    if "file_ext path \<notin> {''xml'', ''html'', ''txt''}"
    by (simp add: m read_file_unsupported [OF that] print_def start_banner_def)
  from u show ?thesis by (simp add: m rd k)
qed

theorem empty_input_returns_witness:
  "fst (main steady_env [''chunked_analyzer.py'', ''notes.pdf''] odd_world) = Returned
   \<and> prompts (snd (main steady_env [''chunked_analyzer.py'', ''notes.pdf''] odd_world)) = []
   \<and> files (snd (main steady_env [''chunked_analyzer.py'', ''notes.pdf''] odd_world))
        ''consolidated_analysis_notes.txt'' = None
   \<and> stdout (snd (main steady_env [''chunked_analyzer.py'', ''notes.pdf''] odd_world))
       = [rocket @ '' Starting Complete Document Analysis'',
          page_facing_up @ '' File: notes.pdf'',
          cross_mark @ '' Unsupported file type: pdf'']"
proof -
  have x: "file_ext ''notes.pdf'' = ''pdf''" by code_simp
  have h1: "files odd_world ''notes.pdf'' \<noteq> None" by (simp add: odd_world_def)
  have h2: "file_ext ''notes.pdf'' \<notin> {''xml'', ''html'', ''txt''}
            \<or> loaded steady_env odd_world ''notes.pdf'' = []"
    by (simp add: x)
  note t = empty_input_returns [OF h1 h2, of "''chunked_analyzer.py''"]
  have p0: "prompts odd_world = []" "stdout odd_world = []"
    "files odd_world ''consolidated_analysis_notes.txt'' = None"
    by (simp_all add: odd_world_def)
  from t show ?thesis by (simp add: x p0)
qed

theorem empty_input_exit_status_counterexample:
  "file_ext ''notes.pdf'' \<notin> {''xml'', ''html'', ''txt''}
   \<and> \<not> exit_status (fst (main steady_env [''chunked_analyzer.py'', ''notes.pdf''] odd_world)) \<noteq> 0
   \<and> loaded steady_env odd_world ''empty.txt'' = []
   \<and> \<not> exit_status (fst (main steady_env [''chunked_analyzer.py'', ''empty.txt''] odd_world)) \<noteq> 0
   \<and> stdout (snd (main steady_env [''chunked_analyzer.py'', ''empty.txt''] odd_world))
       = [rocket @ '' Starting Complete Document Analysis'',
          page_facing_up @ '' File: empty.txt'']"
  by code_simp

lemma loaded_cong:
  assumes "files w path = files w' path" and "get_text ev = get_text ev'"
  shows "loaded ev w path = loaded ev' w' path"
  using assms
  by (simp add: loaded_def read_file_sentences_def read_xml_sentences_def
      read_html_sentences_def read_txt_sentences_def read_text_def Let_def
      split: sum.splits option.splits)

subsection \<open>Document Loader: the format tag\<close>

lemma split_not_Nil [simp]: "split sep s \<noteq> []"
  by (induction s) (auto split: list.splits)



lemma lower_char_dot [simp]: "lower_char c = CHR ''.'' \<longleftrightarrow> c = CHR ''.''"
proof
  assume "c = CHR ''.''"
  then show "lower_char c = CHR ''.''" by (simp add: lower_char_def)
next
  assume a: "lower_char c = CHR ''.''"
  show "c = CHR ''.''"
  proof (rule ccontr)
    assume n: "c \<noteq> CHR ''.''"
    let ?n = "of_char c :: nat"
    have up: "(65 \<le> ?n \<and> ?n \<le> 90) \<or> (192 \<le> ?n \<and> ?n \<le> 222 \<and> ?n \<noteq> 215)"
      using a n by (auto simp: lower_char_def Let_def split: if_splits)
    then have "lower_char c = char_of (?n + 32)" by (simp add: lower_char_def Let_def)
    then have "(of_char (lower_char c) :: nat) = (?n + 32) mod 256" by simp
    also have "\<dots> = ?n + 32" using up by auto
    finally have "(of_char (lower_char c) :: nat) \<noteq> 46" using up by auto
    then show False using a by simp
  qed
qed

lemma dot_in_lower [simp]: "CHR ''.'' \<in> set (lower s) \<longleftrightarrow> CHR ''.'' \<in> set s"
proof -
  have "CHR ''.'' \<in> lower_char ` set s \<longleftrightarrow> CHR ''.'' \<in> set s"
    by (metis (no_types) image_iff lower_char_dot)
  then show ?thesis by (simp add: lower_def)
qed






subsection \<open>Document Loader: XML phrases\<close>

lemma length_xml_phrases [simp]: "length (xml_phrases xs) = length xs"
  by (simp add: xml_phrases_def)

lemma nth_xml_phrases:
  "i < length xs \<Longrightarrow> xml_phrases xs ! i = ''XML Phrase '' @ str_nat (Suc i) @ '': '' @ xs ! i"
  by (simp add: xml_phrases_def nth_enumerate_eq)

lemma str_nat_201: "str_nat 201 = ''201''"
  by code_simp

lemma length_cap_phrases:
  "length (cap_phrases xs) = (if length xs > 200 then 201 else length xs)"
  by (simp add: cap_phrases_def)

lemma nth_cap_phrases:
  assumes "i < length xs" and "i < 200"
  shows "cap_phrases xs ! i = ''XML Phrase '' @ str_nat (Suc i) @ '': '' @ xs ! i"
  using assms by (simp add: cap_phrases_def nth_append nth_xml_phrases)

lemma nth_cap_phrases_marker:
  assumes "length xs > 200"
  shows "cap_phrases xs ! 200 = ''XML Phrase 201: [Additional content truncated for performance]''"
  using assms by (simp add: cap_phrases_def nth_append)

lemma cap_phrases_prefixed:
  assumes "i < length (cap_phrases xs)"
  shows "prefix (''XML Phrase '' @ str_nat (Suc i) @ '': '') (cap_phrases xs ! i)"
proof (cases "i < length xs \<and> i < 200")
  case True
  then show ?thesis by (simp add: nth_cap_phrases)
next
  case False
  with assms have i: "i = 200" and l: "length xs > 200"
    by (auto simp: length_cap_phrases split: if_splits)
  have "str_nat (Suc 200) = ''201''" using str_nat_201 by simp
  then show ?thesis
    by (simp add: i nth_cap_phrases_marker [OF l])
qed

text \<open>
  C10. Every unit the loader returns for an XML input opens with
  \<open>XML Phrase <n>: \<close>, where \<open>n\<close> is the position of the unit counted from 1; a
  unit made from an extracted sentence is that prefix followed by the sentence
  and so differs from the sentence itself. For plain text the units are the
  extracted sentences of the content as they are, and for HTML those of the
  visible text.
\<close>

theorem xml_units_prefixed:
  "(\<forall>i < length (xml_sentences_of content).
      prefix (''XML Phrase '' @ str_nat (Suc i) @ '': '') (xml_sentences_of content ! i))
   \<and> (\<forall>i < length (extract_sentences_from_text (limit_text (xml_text content))). i < 200 \<longrightarrow>
         xml_sentences_of content ! i
           = ''XML Phrase '' @ str_nat (Suc i) @ '': ''
               @ extract_sentences_from_text (limit_text (xml_text content)) ! i
         \<and> xml_sentences_of content ! i
             \<noteq> extract_sentences_from_text (limit_text (xml_text content)) ! i)
   \<and> (read_text w path = Inr content \<longrightarrow>
         fst (read_xml_sentences w path) = xml_sentences_of content
         \<and> fst (read_txt_sentences w path) = extract_sentences_from_text content
         \<and> (\<forall>text. get_text ev content = Inr text \<longrightarrow>
               fst (read_html_sentences ev w path) = extract_sentences_from_text text))"
proof -
  let ?S = "extract_sentences_from_text (limit_text (xml_text content))"
  have a: "prefix (''XML Phrase '' @ str_nat (Suc i) @ '': '') (xml_sentences_of content ! i)"
    if "i < length (xml_sentences_of content)" for i
    using that unfolding xml_sentences_of_def by (rule cap_phrases_prefixed)
  have b: "xml_sentences_of content ! i = ''XML Phrase '' @ str_nat (Suc i) @ '': '' @ ?S ! i
           \<and> xml_sentences_of content ! i \<noteq> ?S ! i"
    if "i < length ?S" "i < 200" for i
  proof -
    have e: "xml_sentences_of content ! i = ''XML Phrase '' @ str_nat (Suc i) @ '': '' @ ?S ! i"
      unfolding xml_sentences_of_def using that by (rule nth_cap_phrases)
    have "length (xml_sentences_of content ! i) \<noteq> length (?S ! i)"
      by (simp add: e)
    then have "xml_sentences_of content ! i \<noteq> ?S ! i" by auto
    with e show ?thesis by blast
  qed
  have c: "fst (read_xml_sentences w path) = xml_sentences_of content
         \<and> fst (read_txt_sentences w path) = extract_sentences_from_text content
         \<and> (\<forall>text. get_text ev content = Inr text \<longrightarrow>
               fst (read_html_sentences ev w path) = extract_sentences_from_text text)"
    if "read_text w path = Inr content"
    by (simp add: read_xml_sentences_def read_txt_sentences_def read_html_sentences_def that)
  from a b c show ?thesis by blast
qed

theorem xml_units_prefixed_witness:
  "xml_sentences_of ''<p>The bill funds clean energy.</p>'' ! 0
     = ''XML Phrase 1: The bill funds clean energy.''
   \<and> fst (read_xml_sentences odd_world ''xml'')
       = xml_sentences_of ''<p>The bill funds clean energy.</p>''
   \<and> fst (read_txt_sentences odd_world ''xml'')
       = extract_sentences_from_text ''<p>The bill funds clean energy.</p>''"
proof -
  have x: "xml_text ''<p>The bill funds clean energy.</p>'' = ''The bill funds clean energy.''"
    by code_simp
  have l: "limit_text ''The bill funds clean energy.'' = ''The bill funds clean energy.''"
    by (simp add: limit_text_def)
  have e: "extract_sentences_from_text ''The bill funds clean energy.''
           = [''The bill funds clean energy.'']"
    by code_simp
  have s1: "str_nat (Suc 0) = ''1''" by code_simp
  have r: "read_text odd_world ''xml'' = Inr ''<p>The bill funds clean energy.</p>''"
    by (simp add: read_text_def odd_world_def)
  note t = xml_units_prefixed [of "''<p>The bill funds clean energy.</p>''" odd_world "''xml''"
      steady_env]
  from t have "0 < length (extract_sentences_from_text
                 (limit_text (xml_text ''<p>The bill funds clean energy.</p>''))) \<longrightarrow>
      (0::nat) < 200 \<longrightarrow>
      xml_sentences_of ''<p>The bill funds clean energy.</p>'' ! 0
        = ''XML Phrase '' @ str_nat (Suc 0) @ '': ''
            @ extract_sentences_from_text
                (limit_text (xml_text ''<p>The bill funds clean energy.</p>'')) ! 0"
    by blast
  then have a: "xml_sentences_of ''<p>The bill funds clean energy.</p>'' ! 0
     = ''XML Phrase 1: The bill funds clean energy.''"
    by (simp add: x l e s1)
  from t r have b: "fst (read_xml_sentences odd_world ''xml'')
       = xml_sentences_of ''<p>The bill funds clean energy.</p>''"
    and c: "fst (read_txt_sentences odd_world ''xml'')
       = extract_sentences_from_text ''<p>The bill funds clean energy.</p>''"
    by blast+
  from a b c show ?thesis by blast
qed

subsection \<open>Document Loader: sentence segmentation\<close>

lemma re_split_not_Nil [simp]: "re_split s \<noteq> []"
  by (induction s rule: re_split.induct) (auto split: list.splits)

lemma re_split_boundary:
  "sentence_end c \<Longrightarrow> cs \<noteq> [] \<Longrightarrow> isspace (hd cs) \<Longrightarrow>
     re_split (c # cs) = [c] # re_split (dropWhile isspace cs)"
  by simp

lemma re_split_inside:
  "\<not> (sentence_end c \<and> cs \<noteq> [] \<and> isspace (hd cs)) \<Longrightarrow>
     re_split (c # cs) = (c # hd (re_split cs)) # tl (re_split cs)"
  by (cases "re_split cs") auto

lemma prefix_hd: "prefix f s \<Longrightarrow> f \<noteq> [] \<Longrightarrow> s \<noteq> [] \<and> hd f = hd s"
  by (cases f) (auto simp: prefix_def)

lemma hd_re_split_prefix: "prefix (hd (re_split s)) s"
proof (induction s rule: re_split.induct)
  case 1
  show ?case by simp
next
  case (2 c cs)
  show ?case
  proof (cases "sentence_end c \<and> cs \<noteq> [] \<and> isspace (hd cs)")
    case True
    then show ?thesis by simp
  next
    case False
    then show ?thesis using 2(2) by (simp add: re_split_inside del: re_split.simps)
  qed
qed

lemma re_split_rejoin:
  "\<exists>seps. length seps + 1 = length (re_split t)
     \<and> (\<forall>s \<in> set seps. s \<noteq> [] \<and> (\<forall>c \<in> set s. isspace c))
     \<and> weave (re_split t) seps = t"
proof (induction t rule: re_split.induct)
  case 1
  show ?case by simp
next
  case (2 c cs)
  show ?case
  proof (cases "sentence_end c \<and> cs \<noteq> [] \<and> isspace (hd cs)")
    case True
    then obtain seps where s: "length seps + 1 = length (re_split (dropWhile isspace cs))"
      "\<forall>s \<in> set seps. s \<noteq> [] \<and> (\<forall>c \<in> set s. isspace c)"
      "weave (re_split (dropWhile isspace cs)) seps = dropWhile isspace cs"
      using 2(1) by blast
    obtain g gs where g: "re_split (dropWhile isspace cs) = g # gs"
      by (cases "re_split (dropWhile isspace cs)") auto
    let ?sep = "takeWhile isspace cs"
    have "?sep \<noteq> []" using True by (cases cs) auto
    moreover have "\<forall>c \<in> set ?sep. isspace c" by (auto dest: set_takeWhileD)
    moreover have "weave (re_split (c # cs)) (?sep # seps) = c # cs"
      using True s(3) by (simp add: g)
    moreover have "length (?sep # seps) + 1 = length (re_split (c # cs))"
      using True s(1) by simp
    ultimately show ?thesis using s(2)
      by (intro exI [of _ "?sep # seps"]) (simp del: re_split.simps)
  next
    case False
    then obtain seps where s: "length seps + 1 = length (re_split cs)"
      "\<forall>s \<in> set seps. s \<noteq> [] \<and> (\<forall>c \<in> set s. isspace c)"
      "weave (re_split cs) seps = cs"
      using 2(2) by blast
    obtain f fs where f: "re_split cs = f # fs"
      by (cases "re_split cs") auto
    have r: "re_split (c # cs) = (c # f) # fs"
      using False by (simp add: re_split_inside f del: re_split.simps)
    have "weave ((c # f) # fs) seps = c # weave (f # fs) seps"
      by (cases fs; cases seps) simp_all
    then have "weave (re_split (c # cs)) seps = c # cs"
      using s(3) by (simp add: r f del: re_split.simps)
    moreover have "length seps + 1 = length (re_split (c # cs))"
      using s(1) by (simp add: r f del: re_split.simps)
    ultimately show ?thesis using s(2) by blast
  qed
qed

lemma re_split_ends:
  "Suc k < length (re_split t) \<Longrightarrow> re_split t ! k \<noteq> [] \<and> sentence_end (last (re_split t ! k))"
proof (induction t arbitrary: k rule: re_split.induct)
  case 1
  then show ?case by simp
next
  case (2 c cs)
  show ?case
  proof (cases "sentence_end c \<and> cs \<noteq> [] \<and> isspace (hd cs)")
    case True
    show ?thesis
    proof (cases k)
      case 0
      then show ?thesis using True by simp
    next
      case (Suc j)
      then have "Suc j < length (re_split (dropWhile isspace cs))"
        using True 2(3) by simp
      then show ?thesis using 2(1) [of j] True Suc by simp
    qed
  next
    case False
    obtain f fs where f: "re_split cs = f # fs"
      by (cases "re_split cs") auto
    have r: "re_split (c # cs) = (c # f) # fs"
      using False by (simp add: re_split_inside f del: re_split.simps)
    have l: "Suc k < length (re_split cs)" using 2(3) by (simp add: r f del: re_split.simps)
    note ih = 2(2) [OF False l]
    show ?thesis
    proof (cases k)
      case 0
      then show ?thesis using ih by (simp add: r f del: re_split.simps)
    next
      case (Suc j)
      then show ?thesis using ih by (simp add: r f del: re_split.simps)
    qed
  qed
qed

lemma re_split_no_boundary_inside:
  "f \<in> set (re_split t) \<Longrightarrow> Suc j < length f \<Longrightarrow> sentence_end (f ! j) \<Longrightarrow>
     \<not> isspace (f ! Suc j)"
proof (induction t arbitrary: f j rule: re_split.induct)
  case 1
  then show ?case by simp
next
  case (2 c cs)
  show ?case
  proof (cases "sentence_end c \<and> cs \<noteq> [] \<and> isspace (hd cs)")
    case True
    then have "f = [c] \<or> f \<in> set (re_split (dropWhile isspace cs))"
      using 2(3) by simp
    then show ?thesis
    proof
      assume "f = [c]"
      then show ?thesis using 2(4) by simp
    next
      assume "f \<in> set (re_split (dropWhile isspace cs))"
      then show ?thesis using 2(1) [OF True _ 2(4,5)] by simp
    qed
  next
    case False
    obtain g gs where g: "re_split cs = g # gs"
      by (cases "re_split cs") auto
    have r: "re_split (c # cs) = (c # g) # gs"
      using False by (simp add: re_split_inside g del: re_split.simps)
    have "f = c # g \<or> f \<in> set gs" using 2(3) by (simp add: r del: re_split.simps)
    then show ?thesis
    proof
      assume fc: "f = c # g"
      show ?thesis
      proof (cases j)
        case 0
        then have gne: "g \<noteq> []" using 2(4) fc by auto
        have "prefix g cs" using hd_re_split_prefix [of cs] by (simp add: g)
        then have "cs \<noteq> []" "hd cs = hd g" using gne by (auto simp: prefix_def)
        moreover have "sentence_end c" using 2(5) fc 0 by simp
        ultimately have "\<not> isspace (hd g)" using False by auto
        then show ?thesis using fc 0 gne by (simp add: hd_conv_nth)
      next
        case (Suc i)
        have "g \<in> set (re_split cs)" by (simp add: g)
        moreover have "Suc i < length g" using 2(4) fc Suc by simp
        moreover have "sentence_end (g ! i)" using 2(5) fc Suc by simp
        ultimately have "\<not> isspace (g ! Suc i)" by (rule 2(2) [OF False])
        then show ?thesis using fc Suc by simp
      qed
    next
      assume "f \<in> set gs"
      then have "f \<in> set (re_split cs)" by (simp add: g)
      then show ?thesis using 2(2) [OF False _ 2(4,5)] by simp
    qed
  qed
qed

lemma re_split_starts:
  "0 < k \<Longrightarrow> k < length (re_split t) \<Longrightarrow>
     re_split t ! k = [] \<or> \<not> isspace (hd (re_split t ! k))"
proof (induction t arbitrary: k rule: re_split.induct)
  case 1
  then show ?case by simp
next
  case (2 c cs)
  show ?case
  proof (cases "sentence_end c \<and> cs \<noteq> [] \<and> isspace (hd cs)")
    case True
    let ?rest = "dropWhile isspace cs"
    obtain j where j: "k = Suc j" using 2(3) by (cases k) auto
    have kj: "re_split (c # cs) ! k = re_split ?rest ! j" using True j by simp
    show ?thesis
    proof (cases j)
      case 0
      have p: "prefix (hd (re_split ?rest)) ?rest" by (rule hd_re_split_prefix)
      have h: "re_split ?rest ! 0 = hd (re_split ?rest)"
        by (simp add: hd_conv_nth)
      show ?thesis
      proof (cases "hd (re_split ?rest) = []")
        case True
        then show ?thesis using kj 0 h by simp
      next
        case False
        then have "?rest \<noteq> []" "hd (hd (re_split ?rest)) = hd ?rest"
          using prefix_hd [OF p] by simp_all
        moreover have "\<not> isspace (hd ?rest)" using \<open>?rest \<noteq> []\<close> by (rule hd_dropWhile)
        ultimately show ?thesis using kj 0 h by simp
      qed
    next
      case (Suc i)
      have "j < length (re_split ?rest)" using 2(4) True j by simp
      then show ?thesis using 2(1) [OF True, of j] Suc kj by simp
    qed
  next
    case False
    obtain g gs where g: "re_split cs = g # gs"
      by (cases "re_split cs") auto
    have r: "re_split (c # cs) = (c # g) # gs"
      using False by (simp add: re_split_inside g del: re_split.simps)
    have "k < length (re_split cs)" using 2(4) by (simp add: r g del: re_split.simps)
    then have "re_split cs ! k = [] \<or> \<not> isspace (hd (re_split cs ! k))"
      using 2(2) [OF False 2(3)] by simp
    moreover have "re_split (c # cs) ! k = re_split cs ! k"
      using 2(3) by (simp add: r g nth_Cons' del: re_split.simps)
    ultimately show ?thesis by (simp del: re_split.simps)
  qed
qed


lemma suffix_last: "suffix b xs \<Longrightarrow> b \<noteq> [] \<Longrightarrow> last b = last xs"
  by (auto simp: suffix_def)

lemma strip_ends:
  assumes "strip s \<noteq> []"
  shows "\<not> isspace (hd (strip s))" and "\<not> isspace (last (strip s))"
proof -
  let ?a = "dropWhile isspace s"
  let ?b = "dropWhile isspace (rev ?a)"
  have b: "?b \<noteq> []" using assms by (simp add: strip_def)
  have a: "?a \<noteq> []"
  proof
    assume e: "?a = []"
    have "?b = []" unfolding e by simp
    with b show False by blast
  qed
  have "\<not> isspace (hd ?b)" using b by (rule hd_dropWhile)
  then show "\<not> isspace (last (strip s))"
    using b by (simp add: strip_def last_rev)
  have "suffix ?b (rev ?a)" by (rule suffix_dropWhile)
  then have "last ?b = last (rev ?a)" using b by (rule suffix_last)
  also have "\<dots> = hd ?a" using a by (simp add: last_rev)
  finally have "\<not> isspace (last ?b)" using hd_dropWhile [OF a] by simp
  then show "\<not> isspace (hd (strip s))"
    using b by (simp add: strip_def hd_rev)
qed

text \<open>
  C5 (as amended). The text is cut at every run of whitespace that follows a
  \<open>.\<close>, \<open>!\<close> or \<open>?\<close>: the fragments and the whitespace runs cut out between
  them give back the text; every fragment but the last ends with one of the
  three marks; every fragment after the first is empty or starts with a
  character that is not whitespace; and inside a fragment no mark is followed by
  whitespace. The units are the trimmed fragments of more than 10 characters,
  in the order of the text; fragments of 10 characters or fewer are dropped.
\<close>

theorem sentence_segmentation:
  "extract_sentences_from_text text
     = map strip (filter (\<lambda>f. 10 < length (strip f)) (re_split text))
   \<and> (\<exists>seps. length seps + 1 = length (re_split text)
         \<and> (\<forall>s \<in> set seps. s \<noteq> [] \<and> (\<forall>c \<in> set s. isspace c))
         \<and> weave (re_split text) seps = text)
   \<and> (\<forall>k. Suc k < length (re_split text) \<longrightarrow>
         re_split text ! k \<noteq> [] \<and> sentence_end (last (re_split text ! k)))
   \<and> (\<forall>k. 0 < k \<and> k < length (re_split text) \<longrightarrow>
         re_split text ! k = [] \<or> \<not> isspace (hd (re_split text ! k)))
   \<and> (\<forall>f \<in> set (re_split text). \<forall>j. Suc j < length f \<longrightarrow> sentence_end (f ! j) \<longrightarrow>
         \<not> isspace (f ! Suc j))
   \<and> (\<forall>u \<in> set (extract_sentences_from_text text).
         10 < length u \<and> \<not> isspace (hd u) \<and> \<not> isspace (last u))"
proof -
  have p: "(strip s \<noteq> [] \<and> 10 < length (strip s)) = (10 < length (strip s))" for s
    by auto
  have a: "extract_sentences_from_text text
     = map strip (filter (\<lambda>f. 10 < length (strip f)) (re_split text))"
    by (simp add: extract_sentences_from_text_def p)
  have u: "10 < length u \<and> \<not> isspace (hd u) \<and> \<not> isspace (last u)"
    if "u \<in> set (extract_sentences_from_text text)" for u
  proof -
    from that obtain f where f: "u = strip f" "10 < length (strip f)"
      by (auto simp: a)
    then have "strip f \<noteq> []" by auto
    then show ?thesis using f strip_ends [of f] by simp
  qed
  from a re_split_rejoin [of "text"] re_split_ends [of _ "text"] re_split_starts [of _ "text"]
    re_split_no_boundary_inside [of _ "text"] u
  show ?thesis by blast
qed

theorem sentence_segmentation_witness:
  "extract_sentences_from_text ''Short one. This sentence is long enough.  And this one, too!''
     = [''This sentence is long enough.'', ''And this one, too!'']
   \<and> re_split ''Short one. This sentence is long enough.  And this one, too!''
     = [''Short one.'', ''This sentence is long enough.'', ''And this one, too!'']"
proof -
  have r: "re_split ''Short one. This sentence is long enough.  And this one, too!''
     = [''Short one.'', ''This sentence is long enough.'', ''And this one, too!'']"
    by code_simp
  have s: "strip ''Short one.'' = ''Short one.''"
    "strip ''This sentence is long enough.'' = ''This sentence is long enough.''"
    "strip ''And this one, too!'' = ''And this one, too!''"
    by code_simp+
  have "extract_sentences_from_text ''Short one. This sentence is long enough.  And this one, too!''
     = map strip (filter (\<lambda>f. 10 < length (strip f))
         (re_split ''Short one. This sentence is long enough.  And this one, too!''))"
    by (rule sentence_segmentation [THEN conjunct1])
  then have "extract_sentences_from_text
       ''Short one. This sentence is long enough.  And this one, too!''
     = map strip (filter (\<lambda>f. 10 < length (strip f))
         [''Short one.'', ''This sentence is long enough.'', ''And this one, too!''])"
    by (simp only: r)
  then have "extract_sentences_from_text
       ''Short one. This sentence is long enough.  And this one, too!''
     = [''This sentence is long enough.'', ''And this one, too!'']"
    by (simp add: s)
  with r show ?thesis by (rule conjI [rotated])
qed

theorem ten_character_fragment_counterexample:
  "re_split ''Short one. This sentence is long enough.''
     = [''Short one.'', ''This sentence is long enough.'']
   \<and> length (strip ''Short one.'') = 10
   \<and> extract_sentences_from_text ''Short one. This sentence is long enough.''
       = [''This sentence is long enough.'']
   \<and> extract_sentences_from_text ''Short one. This sentence is long enough.''
       \<noteq> map strip (filter (\<lambda>f. 10 \<le> length (strip f))
            (re_split ''Short one. This sentence is long enough.''))"
  by code_simp

subsection \<open>Document Loader: the XML bounds\<close>

lemma remove_tags_plain: "CHR ''<'' \<notin> set s \<Longrightarrow> remove_tags s = s"
  by (induction s) auto

lemma remove_declarations_plain: "CHR ''<'' \<notin> set s \<Longrightarrow> remove_declarations s = s"
  by (induction s) auto

lemma collapse_whitespace_plain: "\<forall>c \<in> set s. \<not> isspace c \<Longrightarrow> collapse_whitespace s = s"
  by (induction s) auto

lemma strip_plain:
  assumes "s = [] \<or> (\<not> isspace (hd s) \<and> \<not> isspace (last s))"
  shows "strip s = s"
proof (cases s)
  case Nil
  then show ?thesis by (simp add: strip_def)
next
  case (Cons c cs)
  then have h: "\<not> isspace c" and l: "\<not> isspace (last s)" using assms by auto
  have "dropWhile isspace s = s" using h Cons by simp
  moreover have "dropWhile isspace (rev s) = rev s"
  proof -
    obtain d ds where r: "rev s = d # ds" using Cons by (cases "rev s") auto
    have "d = hd (rev s)" by (simp add: r)
    also have "\<dots> = last s" using Cons by (simp add: hd_rev)
    finally have "\<not> isspace d" using l by simp
    then have "dropWhile isspace (d # ds) = d # ds" by simp
    then show ?thesis by (simp only: r)
  qed
  ultimately show ?thesis by (simp add: strip_def)
qed

lemma xml_text_plain:
  assumes "CHR ''<'' \<notin> set s" and "\<forall>c \<in> set s. \<not> isspace c"
  shows "xml_text s = s"
proof -
  have "s = [] \<or> (\<not> isspace (hd s) \<and> \<not> isspace (last s))"
    using assms(2) by (cases s) auto
  then show ?thesis
    by (simp add: xml_text_def remove_tags_plain assms collapse_whitespace_plain strip_plain
        remove_declarations_plain)
qed


lemma many_sentences_0: "many_sentences 0 = ''The bill funds clean energy.''"
  by (simp add: many_sentences_def)

lemma many_sentences_Suc:
  "many_sentences (Suc n) = ''The bill funds clean energy. '' @ many_sentences n"
  by (simp add: many_sentences_def)

lemma many_sentences_hd: "\<exists>cs. many_sentences n = CHR ''T'' # cs"
  by (cases n) (simp_all add: many_sentences_def)

lemma re_split_many:
  "re_split (many_sentences n) = replicate (Suc n) ''The bill funds clean energy.''"
proof (induction n)
  case 0
  have "re_split ''The bill funds clean energy.'' = [''The bill funds clean energy.'']"
    by code_simp
  then show ?case by (simp only: many_sentences_0 replicate.simps)
next
  case (Suc n)
  obtain cs where cs: "many_sentences n = CHR ''T'' # cs"
    using many_sentences_hd by blast
  have "re_split (''The bill funds clean energy. '' @ CHR ''T'' # cs)
        = ''The bill funds clean energy.'' # re_split (CHR ''T'' # cs)"
    by (simp add: isspace_def sentence_end_def)
  then have "re_split (many_sentences (Suc n))
        = ''The bill funds clean energy.'' # re_split (many_sentences n)"
    by (simp only: many_sentences_Suc cs)
  then show ?case by (simp only: Suc.IH replicate.simps)
qed

lemma collapse_whitespace_many: "collapse_whitespace (many_sentences n) = many_sentences n"
proof (induction n)
  case 0
  have "collapse_whitespace ''The bill funds clean energy.'' = ''The bill funds clean energy.''"
    by code_simp
  then show ?case by (simp only: many_sentences_0)
next
  case (Suc n)
  obtain cs where cs: "many_sentences n = CHR ''T'' # cs"
    using many_sentences_hd by blast
  have "collapse_whitespace (''The bill funds clean energy. '' @ CHR ''T'' # cs)
        = ''The bill funds clean energy. '' @ collapse_whitespace (CHR ''T'' # cs)"
    by (simp add: isspace_def)
  then have "collapse_whitespace (many_sentences (Suc n))
        = ''The bill funds clean energy. '' @ collapse_whitespace (many_sentences n)"
    by (simp only: many_sentences_Suc cs)
  then show ?case by (simp only: Suc.IH many_sentences_Suc)
qed

lemma many_sentences_no_tag: "CHR ''<'' \<notin> set (many_sentences n)"
  by (induction n) (simp_all add: many_sentences_0 many_sentences_Suc)

lemma length_many_sentences: "length (many_sentences n) = 29 * n + 28"
  by (induction n) (simp_all add: many_sentences_0 many_sentences_Suc)

lemma strip_many: "strip (many_sentences n) = many_sentences n"
proof (rule strip_plain, rule disjI2)
  obtain cs where cs: "many_sentences n = CHR ''T'' # cs"
    using many_sentences_hd by blast
  have "last (many_sentences n) = CHR ''.''"
    by (simp add: many_sentences_def)
  moreover have "hd (many_sentences n) = CHR ''T''" by (simp add: cs)
  ultimately show "\<not> isspace (hd (many_sentences n)) \<and> \<not> isspace (last (many_sentences n))"
    by (simp add: isspace_def)
qed

lemma xml_text_many: "xml_text (many_sentences n) = many_sentences n"
  by (simp add: xml_text_def remove_tags_plain remove_declarations_plain many_sentences_no_tag
      collapse_whitespace_many strip_many)

lemma extract_many:
  "extract_sentences_from_text (many_sentences n)
     = replicate (Suc n) ''The bill funds clean energy.''"
proof -
  have s: "strip ''The bill funds clean energy.'' = ''The bill funds clean energy.''"
    by code_simp
  have "extract_sentences_from_text (many_sentences n)
        = map strip (filter (\<lambda>s. strip s \<noteq> [] \<and> length (strip s) > 10)
            (replicate (Suc n) ''The bill funds clean energy.''))"
    by (simp only: extract_sentences_from_text_def re_split_many)
  also have "\<dots> = replicate (Suc n) ''The bill funds clean energy.''"
    by (simp add: s del: replicate.simps)
  finally show ?thesis .
qed


text \<open>
  C6. When the normalized text of an XML input has more than 50,000 characters,
  what is segmented is its first 50,000 characters followed by the marker
  \<open>... [truncated for performance]\<close>. When the segmentation gives more than 200
  sentences, the loader returns 201 units: the first 200 sentences, numbered,
  and as the last unit
  \<open>XML Phrase 201: [Additional content truncated for performance]\<close>. A text of at
  most 50,000 characters is segmented as it is, and at most 200 sentences are
  all returned, numbered, with no closing unit.
\<close>

theorem xml_cost_bounds:
  "(length (xml_text content) > 50000 \<longrightarrow>
      limit_text (xml_text content)
        = take 50000 (xml_text content) @ ''... [truncated for performance]''
      \<and> length (limit_text (xml_text content)) = 50031
      \<and> xml_sentences_of content
          = cap_phrases (extract_sentences_from_text
              (take 50000 (xml_text content) @ ''... [truncated for performance]'')))
   \<and> (length (extract_sentences_from_text (limit_text (xml_text content))) > 200 \<longrightarrow>
        length (xml_sentences_of content) = 201
        \<and> take 200 (xml_sentences_of content)
            = xml_phrases (take 200 (extract_sentences_from_text (limit_text (xml_text content))))
        \<and> (\<forall>i < 200. xml_sentences_of content ! i
              = ''XML Phrase '' @ str_nat (Suc i) @ '': ''
                  @ extract_sentences_from_text (limit_text (xml_text content)) ! i)
        \<and> last (xml_sentences_of content)
            = ''XML Phrase 201: [Additional content truncated for performance]'')
   \<and> (read_text w path = Inr content \<longrightarrow>
        read_xml_sentences w path = (xml_sentences_of content, w))
   \<and> (length (xml_text content) \<le> 50000 \<longrightarrow>
        limit_text (xml_text content) = xml_text content)
   \<and> (length (extract_sentences_from_text (limit_text (xml_text content))) \<le> 200 \<longrightarrow>
        xml_sentences_of content
          = xml_phrases (extract_sentences_from_text (limit_text (xml_text content))))"
proof -
  let ?S = "extract_sentences_from_text (limit_text (xml_text content))"
  have a: "limit_text (xml_text content)
        = take 50000 (xml_text content) @ ''... [truncated for performance]''
      \<and> length (limit_text (xml_text content)) = 50031
      \<and> xml_sentences_of content
          = cap_phrases (extract_sentences_from_text
              (take 50000 (xml_text content) @ ''... [truncated for performance]''))"
    if "length (xml_text content) > 50000"
    using that by (simp add: limit_text_def xml_sentences_of_def)
  have b: "length (xml_sentences_of content) = 201
        \<and> take 200 (xml_sentences_of content) = xml_phrases (take 200 ?S)
        \<and> (\<forall>i < 200. xml_sentences_of content ! i
              = ''XML Phrase '' @ str_nat (Suc i) @ '': '' @ ?S ! i)
        \<and> last (xml_sentences_of content)
            = ''XML Phrase 201: [Additional content truncated for performance]''"
    if l: "length ?S > 200"
  proof -
    have 1: "length (xml_sentences_of content) = 201"
      using l by (simp add: xml_sentences_of_def length_cap_phrases)
    have 2: "take 200 (xml_sentences_of content) = xml_phrases (take 200 ?S)"
      using l by (simp add: xml_sentences_of_def cap_phrases_def)
    have 3: "xml_sentences_of content ! i = ''XML Phrase '' @ str_nat (Suc i) @ '': '' @ ?S ! i"
      if "i < 200" for i
      unfolding xml_sentences_of_def using l that by (intro nth_cap_phrases) simp_all
    have 4: "last (xml_sentences_of content)
            = ''XML Phrase 201: [Additional content truncated for performance]''"
      using l by (simp add: xml_sentences_of_def cap_phrases_def)
    from 1 2 3 4 show ?thesis by blast
  qed
  have c: "read_xml_sentences w path = (xml_sentences_of content, w)"
    if "read_text w path = Inr content"
    by (simp add: read_xml_sentences_def that)
  have d: "limit_text (xml_text content) = xml_text content"
    if "length (xml_text content) \<le> 50000"
    using that by (simp add: limit_text_def)
  have e: "xml_sentences_of content = xml_phrases ?S" if "length ?S \<le> 200"
    using that by (simp add: xml_sentences_of_def cap_phrases_def)
  from a b c d e show ?thesis by blast
qed

theorem xml_cost_bounds_witness:
  "length (xml_text (replicate 50001 (CHR ''a''))) > 50000
   \<and> limit_text (xml_text (replicate 50001 (CHR ''a'')))
       = replicate 50000 (CHR ''a'') @ ''... [truncated for performance]''
   \<and> length (extract_sentences_from_text (limit_text (xml_text (many_sentences 200)))) > 200
   \<and> length (xml_sentences_of (many_sentences 200)) = 201
   \<and> xml_sentences_of (many_sentences 200) ! 0 = ''XML Phrase 1: The bill funds clean energy.''
   \<and> last (xml_sentences_of (many_sentences 200))
       = ''XML Phrase 201: [Additional content truncated for performance]''
   \<and> limit_text (xml_text (many_sentences 199)) = many_sentences 199
   \<and> length (xml_sentences_of (many_sentences 199)) = 200"
proof -
  have x: "xml_text (replicate 50001 (CHR ''a'')) = replicate 50001 (CHR ''a'')"
    by (rule xml_text_plain) (simp_all add: isspace_def )
  have h1: "length (xml_text (replicate 50001 (CHR ''a''))) > 50000"
    by (simp add: x)
  have m: "limit_text (xml_text (many_sentences 200)) = many_sentences 200"
    by (simp add: xml_text_many limit_text_def length_many_sentences)
  have s2: "Suc 200 = 201" by simp
  have e: "extract_sentences_from_text (limit_text (xml_text (many_sentences 200)))
           = replicate 201 ''The bill funds clean energy.''"
    by (simp only: m extract_many s2)
  have h2: "length (extract_sentences_from_text (limit_text (xml_text (many_sentences 200)))) > 200"
    by (simp add: e)
  note t1 = xml_cost_bounds [of "replicate 50001 (CHR ''a'')", THEN conjunct1, rule_format, OF h1]
  note t2 = xml_cost_bounds [of "many_sentences 200", THEN conjunct2, THEN conjunct1,
      rule_format, OF h2]
  from t1 have a: "limit_text (xml_text (replicate 50001 (CHR ''a'')))
       = take 50000 (xml_text (replicate 50001 (CHR ''a''))) @ ''... [truncated for performance]''"
    by (rule conjunct1)
  have mn: "min (50000::nat) 50001 = 50000" by simp
  have a': "limit_text (xml_text (replicate 50001 (CHR ''a'')))
       = replicate 50000 (CHR ''a'') @ ''... [truncated for performance]''"
    unfolding a by (simp only: x take_replicate mn)
  from t2 have b: "length (xml_sentences_of (many_sentences 200)) = 201"
    by (rule conjunct1)
  from t2 have "\<forall>i < 200. xml_sentences_of (many_sentences 200) ! i
              = ''XML Phrase '' @ str_nat (Suc i) @ '': ''
                  @ extract_sentences_from_text (limit_text (xml_text (many_sentences 200))) ! i"
    by (rule conjunct1 [OF conjunct2 [OF conjunct2]])
  then have "xml_sentences_of (many_sentences 200) ! 0
              = ''XML Phrase '' @ str_nat (Suc 0) @ '': ''
                  @ extract_sentences_from_text (limit_text (xml_text (many_sentences 200))) ! 0"
    by simp
  moreover have "str_nat (Suc 0) = ''1''" by code_simp
  ultimately have c: "xml_sentences_of (many_sentences 200) ! 0
      = ''XML Phrase 1: The bill funds clean energy.''"
    by (simp add: e)
  from t2 have d: "last (xml_sentences_of (many_sentences 200))
       = ''XML Phrase 201: [Additional content truncated for performance]''"
    by (rule conjunct2 [OF conjunct2 [OF conjunct2]])
  have l9: "length (xml_text (many_sentences 199)) \<le> 50000"
    by (simp add: xml_text_many length_many_sentences)
  have f: "limit_text (xml_text (many_sentences 199)) = xml_text (many_sentences 199)"
    using l9 by (rule xml_cost_bounds [of "many_sentences 199", THEN conjunct2, THEN conjunct2,
      THEN conjunct2, THEN conjunct1, rule_format])
  have f': "limit_text (xml_text (many_sentences 199)) = many_sentences 199"
    using f by (simp only: xml_text_many)
  have s9: "Suc 199 = 200" by simp
  have e9: "extract_sentences_from_text (limit_text (xml_text (many_sentences 199)))
           = replicate 200 ''The bill funds clean energy.''"
    by (simp only: f' extract_many s9)
  have "length (extract_sentences_from_text (limit_text (xml_text (many_sentences 199)))) \<le> 200"
    by (simp add: e9)
  then have "xml_sentences_of (many_sentences 199)
      = xml_phrases (extract_sentences_from_text (limit_text (xml_text (many_sentences 199))))"
    by (rule xml_cost_bounds [of "many_sentences 199", THEN conjunct2, THEN conjunct2,
      THEN conjunct2, THEN conjunct2, rule_format])
  then have g: "length (xml_sentences_of (many_sentences 199)) = 200"
    by (simp add: e9)
  from h1 a' h2 b c d f' g show ?thesis by (intro conjI)
qed

subsection \<open>Report Sink: the artifact name\<close>

lemma rfind_absent: "c \<notin> set p \<Longrightarrow> rfind p c = - 1"
  by (simp add: rfind_def)

lemma rfind_lower_bound: "- 1 \<le> rfind p c"
proof -
  have "length (takeWhile (\<lambda>x. x \<noteq> c) (rev p)) \<le> length (rev p)"
    by (rule length_takeWhile_le)
  then show ?thesis by (simp add: rfind_def)
qed

lemma rfind_last:
  assumes "c \<notin> set b"
  shows "rfind (a @ c # b) c = int (length a)"
proof -
  have "takeWhile (\<lambda>x. x \<noteq> c) (rev b @ c # rev a)
        = rev b @ takeWhile (\<lambda>x. x \<noteq> c) (c # rev a)"
    by (rule takeWhile_append2) (use assms in auto)
  then have "takeWhile (\<lambda>x. x \<noteq> c) (rev (a @ c # b)) = rev b" by simp
  then show ?thesis by (simp add: rfind_def)
qed

lemma basename_dir:
  assumes "CHR ''/'' \<notin> set file"
  shows "basename (dir @ ''/'' @ file) = file"
proof -
  have "rfind (dir @ CHR ''/'' # file) (CHR ''/'') = int (length dir)"
    using assms by (rule rfind_last)
  moreover have "nat (int (length dir) + 1) = Suc (length dir)" by simp
  ultimately have "basename (dir @ CHR ''/'' # file) = drop (Suc (length dir)) (dir @ CHR ''/'' # file)"
    by (simp only: basename_def)
  then show ?thesis by simp
qed

lemma basename_plain: "CHR ''/'' \<notin> set file \<Longrightarrow> basename file = file"
  by (simp add: basename_def rfind_absent)

lemma splitext_ext:
  assumes "CHR ''/'' \<notin> set (stem @ ext)" and "CHR ''.'' \<notin> set ext"
    and "\<exists>c \<in> set stem. c \<noteq> CHR ''.''"
  shows "splitext (stem @ ''.'' @ ext) = (stem, ''.'' @ ext)"
proof -
  have s: "rfind (stem @ CHR ''.'' # ext) (CHR ''/'') = - 1"
    using assms(1) by (simp add: rfind_absent)
  have d: "rfind (stem @ CHR ''.'' # ext) (CHR ''.'') = int (length stem)"
    using assms(2) by (rule rfind_last)
  have "list_ex (\<lambda>c. c \<noteq> CHR ''.'') stem"
    using assms(3) by (simp add: list_ex_iff)
  then show ?thesis
    by (simp add: splitext_def s d slice_def Let_def)
qed

lemma splitext_plain:
  assumes "CHR ''.'' \<notin> set file"
  shows "splitext file = (file, [])"
proof -
  have "rfind file (CHR ''.'') = - 1" using assms by (rule rfind_absent)
  moreover have "- 1 \<le> rfind file (CHR ''/'')" by (rule rfind_lower_bound)
  ultimately show ?thesis by (simp add: splitext_def Let_def)
qed

lemma output_file_dir:
  "CHR ''/'' \<notin> set file \<Longrightarrow> output_file (dir @ ''/'' @ file) = output_file file"
  using basename_dir [of "file" "dir"] basename_plain [of "file"]
  by (simp add: output_file_def)

lemma output_file_ext:
  assumes "CHR ''/'' \<notin> set (stem @ ext)" and "CHR ''.'' \<notin> set ext"
    and "\<exists>c \<in> set stem. c \<noteq> CHR ''.''"
  shows "output_file (stem @ ''.'' @ ext) = ''consolidated_analysis_'' @ stem @ ''.txt''"
proof -
  have "CHR ''/'' \<notin> set (stem @ ''.'' @ ext)" using assms(1) by simp
  then have "basename (stem @ ''.'' @ ext) = stem @ ''.'' @ ext" by (rule basename_plain)
  then show ?thesis
    by (simp only: output_file_def splitext_ext [OF assms] fst_conv)
qed

lemma output_file_plain:
  assumes "CHR ''/'' \<notin> set file" and "CHR ''.'' \<notin> set file"
  shows "output_file file = ''consolidated_analysis_'' @ file @ ''.txt''"
  by (simp only: output_file_def basename_plain [OF assms(1)] splitext_plain [OF assms(2)] fst_conv)


subsection \<open>A three-chunk run\<close>

lemma loaded_long:
  "loaded ev long_world ''uploads/long.txt'' = replicate 801 ''The bill funds clean energy.''"
proof -
  have x: "file_ext ''uploads/long.txt'' = ''txt''" by code_simp
  have r: "read_text (start_banner ''uploads/long.txt'' long_world) ''uploads/long.txt''
           = Inr (many_sentences 800)"
    by (simp add: read_text_def long_world_def)
  have s: "Suc 800 = 801" by simp
  have "loaded ev long_world ''uploads/long.txt'' = extract_sentences_from_text (many_sentences 800)"
    by (simp add: loaded_def read_file_sentences_def x read_txt_sentences_def r)
  then show ?thesis by (simp only: extract_many s)
qed

lemma chunks_long:
  "chunks_of chunk_size (replicate 801 x) = [replicate 400 x, replicate 400 x, [x]]"
proof -
  have u: "[0..<3] = [0, 1, 2]" by (simp add: upt_rec)
  have "chunks_of chunk_size (replicate 801 x)
        = map (\<lambda>k. take 400 (drop (k * 400) (replicate 801 x))) [0..<3]"
    by (simp add: chunks_of_closed chunk_size_def)
  then show ?thesis by (simp add: u)
qed

lemma str_nat_small:
  "str_nat (Suc 0) = ''1''" "str_nat (Suc (Suc 0)) = ''2''" "str_nat (Suc (Suc (Suc 0))) = ''3''"
  by code_simp+


text \<open>
  C3. In a run that reaches the analysis, the last prompt sent to the completion
  service is the consolidation prompt. It consists of the opening line, an empty
  line, the labelled chunk results, an empty line and the fixed instructions.
  Two consecutive labelled results are separated by two line feeds, that is by
  one empty line. There is one labelled result per chunk, in the order of the
  chunks: the result at position \<open>k\<close> is \<open>CHUNK <k + 1>:\<close>, a line feed, and
  whatever the Chunk Analyzer returned for chunk \<open>k + 1\<close>, a failure marker
  included.
\<close>

theorem fusion_prompt_ordered:
  assumes "files w path \<noteq> None" and "loaded ev w path \<noteq> []"
  shows "last (prompts (snd (main ev [prog, path] w)))
           = fusion_prompt (labelled_results ev (length (prompts w))
                              (chunks_of chunk_size (loaded ev w path)))
       \<and> fusion_prompt (labelled_results ev (length (prompts w))
                          (chunks_of chunk_size (loaded ev w path)))
           = ''Based on these chunk analyses of a regulatory bill, provide a consolidated report:''
               @ [CHR 0x0A, CHR 0x0A]
               @ join [CHR 0x0A, CHR 0x0A]
                   (labelled_results ev (length (prompts w))
                      (chunks_of chunk_size (loaded ev w path)))
               @ [CHR 0x0A, CHR 0x0A] @ join [CHR 0x0A] fusion_instructions
       \<and> length (labelled_results ev (length (prompts w))
                    (chunks_of chunk_size (loaded ev w path)))
           = length (chunks_of chunk_size (loaded ev w path))
       \<and> (\<forall>k < length (chunks_of chunk_size (loaded ev w path)).
             \<forall>wk. length (prompts wk) = length (prompts w) + k \<longrightarrow>
               labelled_results ev (length (prompts w))
                   (chunks_of chunk_size (loaded ev w path)) ! k
               = ''CHUNK '' @ str_nat (Suc k) @ '':'' @ [CHR 0x0A]
                   @ fst (analyze_chunk ev (chunks_of chunk_size (loaded ev w path) ! k) (Suc k)
                            (length (chunks_of chunk_size (loaded ev w path))) wk))
       \<and> (\<forall>a b c. join [CHR 0x0A, CHR 0x0A] [a, b, c]
                     = a @ [CHR 0x0A, CHR 0x0A] @ b @ [CHR 0x0A, CHR 0x0A] @ c)"
proof -
  let ?cs = "chunks_of chunk_size (loaded ev w path)"
  let ?R = "labelled_results ev (length (prompts w)) ?cs"
  from main_run [OF assms, of prog] obtain w4 where
    m: "main ev [prog, path] w =
           write_text ev (output_file path) (final_report ev w (loaded ev w path)) w4"
    and p: "prompts w4 = prompts w @ chunk_prompts ?cs @ [fusion_prompt ?R]"
    by blast
  have a: "last (prompts (snd (main ev [prog, path] w))) = fusion_prompt ?R"
    by (simp add: m p)
  have b: "fusion_prompt ?R
           = ''Based on these chunk analyses of a regulatory bill, provide a consolidated report:''
               @ [CHR 0x0A, CHR 0x0A] @ join [CHR 0x0A, CHR 0x0A] ?R
               @ [CHR 0x0A, CHR 0x0A] @ join [CHR 0x0A] fusion_instructions"
    by (simp add: fusion_prompt_shape nl_def)
  have c: "?R ! k = ''CHUNK '' @ str_nat (Suc k) @ '':'' @ [CHR 0x0A]
                   @ fst (analyze_chunk ev (?cs ! k) (Suc k) (length ?cs) wk)"
    if "k < length ?cs" "length (prompts wk) = length (prompts w) + k" for k wk
    using that by (simp add: labelled_results_def analyze_chunk_eq nl_def)
  have d: "join [CHR 0x0A, CHR 0x0A] [a, b, c]
             = a @ [CHR 0x0A, CHR 0x0A] @ b @ [CHR 0x0A, CHR 0x0A] @ c" for a b c
    by simp
  have e: "length ?R = length ?cs" by simp
  from a b e c d show ?thesis by blast
qed

theorem fusion_prompt_ordered_witness:
  "last (prompts (snd (main second_call_fails [''chunked_analyzer.py'', ''uploads/long.txt'']
                         long_world)))
     = ''Based on these chunk analyses of a regulatory bill, provide a consolidated report:''
         @ [CHR 0x0A, CHR 0x0A]
         @ ''CHUNK 1:'' @ [CHR 0x0A] @ ''Provisions: tax credits''
         @ [CHR 0x0A, CHR 0x0A]
         @ ''CHUNK 2:'' @ [CHR 0x0A] @ ''Chunk 2 analysis failed: Read timed out''
         @ [CHR 0x0A, CHR 0x0A]
         @ ''CHUNK 3:'' @ [CHR 0x0A] @ ''Provisions: tax credits''
         @ [CHR 0x0A, CHR 0x0A] @ join [CHR 0x0A] fusion_instructions"
proof -
  let ?u = "''The bill funds clean energy.''"
  let ?cs = "[replicate 400 ?u, replicate 400 ?u, [?u]]"
  have ld: "loaded second_call_fails long_world ''uploads/long.txt'' = replicate 801 ?u"
    by (rule loaded_long)
  have cs: "chunks_of chunk_size (loaded second_call_fails long_world ''uploads/long.txt'') = ?cs"
    by (simp only: ld chunks_long)
  have p0: "prompts long_world = []" by (simp add: long_world_def)
  have h1: "files long_world ''uploads/long.txt'' \<noteq> None" by (simp add: long_world_def)
  have h2: "loaded second_call_fails long_world ''uploads/long.txt'' \<noteq> []"
    by (simp add: ld)
  note t = fusion_prompt_ordered [OF h1 h2, of "''chunked_analyzer.py''"]
  have u: "[0..<3] = [0, 1, 2]" by (simp add: upt_rec)
  have cv: "converse second_call_fails k p
            = (if k = 1 then Inl ''Read timed out'' else Inr ''Provisions: tax credits'')" for k p
    by (simp add: second_call_fails_def)
  have r: "labelled_results second_call_fails 0 ?cs
           = [''CHUNK 1:'' @ [CHR 0x0A] @ ''Provisions: tax credits'',
              ''CHUNK 2:'' @ [CHR 0x0A] @ ''Chunk 2 analysis failed: Read timed out'',
              ''CHUNK 3:'' @ [CHR 0x0A] @ ''Provisions: tax credits'']"
    by (simp add: labelled_results_def chunk_reply_def cv u str_nat_small nl_def
        del: replicate.simps)
  from t have "last (prompts (snd (main second_call_fails
                   [''chunked_analyzer.py'', ''uploads/long.txt''] long_world)))
      = fusion_prompt (labelled_results second_call_fails (length (prompts long_world))
            (chunks_of chunk_size (loaded second_call_fails long_world ''uploads/long.txt'')))"
    by (rule conjunct1)
  also from t have "\<dots>
      = ''Based on these chunk analyses of a regulatory bill, provide a consolidated report:''
          @ [CHR 0x0A, CHR 0x0A]
          @ join [CHR 0x0A, CHR 0x0A]
              (labelled_results second_call_fails (length (prompts long_world))
                 (chunks_of chunk_size (loaded second_call_fails long_world ''uploads/long.txt'')))
          @ [CHR 0x0A, CHR 0x0A] @ join [CHR 0x0A] fusion_instructions"
    by (rule conjunct1 [OF conjunct2])
  also have "\<dots>
      = ''Based on these chunk analyses of a regulatory bill, provide a consolidated report:''
         @ [CHR 0x0A, CHR 0x0A]
         @ ''CHUNK 1:'' @ [CHR 0x0A] @ ''Provisions: tax credits''
         @ [CHR 0x0A, CHR 0x0A]
         @ ''CHUNK 2:'' @ [CHR 0x0A] @ ''Chunk 2 analysis failed: Read timed out''
         @ [CHR 0x0A, CHR 0x0A]
         @ ''CHUNK 3:'' @ [CHR 0x0A] @ ''Provisions: tax credits''
         @ [CHR 0x0A, CHR 0x0A] @ join [CHR 0x0A] fusion_instructions"
    unfolding cs p0 list.size r by simp
  finally show ?thesis .
qed


text \<open>
  C8. The artifact name is \<open>consolidated_analysis_\<close>, the base name of the input
  file without its extension, and \<open>.txt\<close>. The directories of the path do not
  enter the name; of a file name \<open><stem>.<ext>\<close> only \<open><stem>\<close> enters, and a
  file name without a dot enters whole; two paths with the same base name give
  the same artifact name. A run that reaches the sink stores the final report
  under that name, replacing whatever was there. A second run on the same path,
  started in the state the first one left, stores its own report under the same
  name: the set of existing files is the same after the second run as after the
  first, and no other file has changed.
\<close>

theorem sink_overwrites:
  assumes "files w path \<noteq> None" and "loaded ev1 w path \<noteq> []"
    and "writable ev1 (output_file path)"
    and "loaded ev2 (snd (main ev1 [prog, path] w)) path \<noteq> []"
    and "writable ev2 (output_file path)"
  shows "output_file path
           = ''consolidated_analysis_'' @ fst (splitext (basename path)) @ ''.txt''
       \<and> (\<forall>q. basename q = basename path \<longrightarrow> output_file q = output_file path)
       \<and> files (snd (main ev1 [prog, path] w))
           = (files w)(output_file path \<mapsto> Inr (final_report ev1 w (loaded ev1 w path)))
       \<and> files (snd (main ev2 [prog, path] (snd (main ev1 [prog, path] w))))
           = (files (snd (main ev1 [prog, path] w)))
               (output_file path \<mapsto>
                  Inr (final_report ev2 (snd (main ev1 [prog, path] w))
                         (loaded ev2 (snd (main ev1 [prog, path] w)) path)))
       \<and> dom (files (snd (main ev2 [prog, path] (snd (main ev1 [prog, path] w)))))
           = dom (files (snd (main ev1 [prog, path] w)))
       \<and> (\<forall>q. q \<noteq> output_file path \<longrightarrow>
             files (snd (main ev2 [prog, path] (snd (main ev1 [prog, path] w)))) q = files w q)
       \<and> (\<forall>dir name. CHR ''/'' \<notin> set name \<longrightarrow>
             output_file (dir @ ''/'' @ name) = output_file name)
       \<and> (\<forall>stem ext. CHR ''/'' \<notin> set (stem @ ext) \<and> CHR ''.'' \<notin> set ext
               \<and> (\<exists>c \<in> set stem. c \<noteq> CHR ''.'') \<longrightarrow>
             output_file (stem @ ''.'' @ ext) = ''consolidated_analysis_'' @ stem @ ''.txt'')
       \<and> (\<forall>name. CHR ''/'' \<notin> set name \<and> CHR ''.'' \<notin> set name \<longrightarrow>
             output_file name = ''consolidated_analysis_'' @ name @ ''.txt'')"
proof -
  let ?w1 = "snd (main ev1 [prog, path] w)"
  let ?w2 = "snd (main ev2 [prog, path] ?w1)"
  note m1 = main_run_written [OF assms(1,2,3), of prog]
  have ex: "files ?w1 path \<noteq> None"
    using assms(1) by (simp add: m1(2))
  note m2 = main_run_written [OF ex assms(4,5), of prog]
  have n0: "output_file path
           = ''consolidated_analysis_'' @ fst (splitext (basename path)) @ ''.txt''"
    by (rule output_file_def)
  have a: "(\<forall>q. basename q = basename path \<longrightarrow> output_file q = output_file path)"
    by (simp add: output_file_def)
  have d: "dom (files ?w2) = dom (files ?w1)"
    by (auto simp: m2(2) m1(2))
  have o: "\<forall>q. q \<noteq> output_file path \<longrightarrow> files ?w2 q = files w q"
    by (simp add: m2(2) m1(2))
  have n1: "\<forall>dir name. CHR ''/'' \<notin> set name \<longrightarrow>
             output_file (dir @ ''/'' @ name) = output_file name"
    using output_file_dir by blast
  have n2: "\<forall>stem ext. CHR ''/'' \<notin> set (stem @ ext) \<and> CHR ''.'' \<notin> set ext
               \<and> (\<exists>c \<in> set stem. c \<noteq> CHR ''.'') \<longrightarrow>
             output_file (stem @ ''.'' @ ext) = ''consolidated_analysis_'' @ stem @ ''.txt''"
    using output_file_ext by blast
  have n3: "\<forall>name. CHR ''/'' \<notin> set name \<and> CHR ''.'' \<notin> set name \<longrightarrow>
             output_file name = ''consolidated_analysis_'' @ name @ ''.txt''"
    using output_file_plain by blast
  from n0 a m1(2) m2(2) d o n1 n2 n3 show ?thesis
    by (intro conjI)
qed

theorem sink_overwrites_witness:
  "output_file ''uploads/long.txt'' = ''consolidated_analysis_long.txt''
   \<and> output_file ''uploads/2024/hr.1234.XML'' = ''consolidated_analysis_hr.1234.txt''
   \<and> files (snd (main steady_env [''chunked_analyzer.py'', ''uploads/long.txt''] long_world))
        ''consolidated_analysis_long.txt''
       = Some (Inr ''1. BILL SUMMARY: clean energy funding'')
   \<and> files (snd (main revised_env [''chunked_analyzer.py'', ''uploads/long.txt'']
                    (snd (main steady_env [''chunked_analyzer.py'', ''uploads/long.txt'']
                            long_world))))
        ''consolidated_analysis_long.txt''
       = Some (Inr ''1. BILL SUMMARY: revised'')
   \<and> dom (files (snd (main revised_env [''chunked_analyzer.py'', ''uploads/long.txt'']
                    (snd (main steady_env [''chunked_analyzer.py'', ''uploads/long.txt'']
                            long_world)))))
       = dom (files (snd (main steady_env [''chunked_analyzer.py'', ''uploads/long.txt'']
                            long_world)))"
proof -
  let ?p = "''uploads/long.txt''"
  let ?w1 = "snd (main steady_env [''chunked_analyzer.py'', ?p] long_world)"
  let ?w2 = "snd (main revised_env [''chunked_analyzer.py'', ?p] ?w1)"
  have h1: "files long_world ?p \<noteq> None" by (simp add: long_world_def)
  have h2: "loaded steady_env long_world ?p \<noteq> []" by (simp add: loaded_long)
  have h3: "writable steady_env (output_file ?p)" by (simp add: steady_env_def)
  have ne: "output_file ?p \<noteq> ?p" by (simp add: output_file_def)
  have "files ?w1 ?p = files long_world ?p"
    using ne by (simp add: main_run_written(2) [OF h1 h2 h3])
  moreover have "get_text revised_env = get_text steady_env"
    by (simp add: revised_env_def steady_env_def)
  ultimately have "loaded revised_env ?w1 ?p = loaded steady_env long_world ?p"
    by (rule loaded_cong)
  then have h4: "loaded revised_env ?w1 ?p \<noteq> []" by (simp add: loaded_long)
  have h5: "writable revised_env (output_file ?p)"
    by (simp add: revised_env_def)
  note t = sink_overwrites [OF h1 h2 h3 h4 h5]
  have t3: "files ?w1 = (files long_world)(output_file ?p \<mapsto>
        Inr (final_report steady_env long_world (loaded steady_env long_world ?p)))"
    using t by (rule conjunct1 [OF conjunct2 [OF conjunct2]])
  have t4: "files ?w2 = (files ?w1)(output_file ?p \<mapsto>
          Inr (final_report revised_env ?w1 (loaded revised_env ?w1 ?p)))"
    using t by (rule conjunct1 [OF conjunct2 [OF conjunct2 [OF conjunct2]]])
  have t5: "dom (files ?w2) = dom (files ?w1)"
    using t by (rule conjunct1 [OF conjunct2 [OF conjunct2 [OF conjunct2 [OF conjunct2]]]])
  have t7: "\<forall>dir name. CHR ''/'' \<notin> set name \<longrightarrow>
             output_file (dir @ ''/'' @ name) = output_file name"
    using t by (rule conjunct1 [OF conjunct2 [OF conjunct2 [OF conjunct2 [OF conjunct2
      [OF conjunct2 [OF conjunct2]]]]]])
  have t8: "\<forall>stem ext. CHR ''/'' \<notin> set (stem @ ext) \<and> CHR ''.'' \<notin> set ext
               \<and> (\<exists>c \<in> set stem. c \<noteq> CHR ''.'') \<longrightarrow>
             output_file (stem @ ''.'' @ ext) = ''consolidated_analysis_'' @ stem @ ''.txt''"
    using t by (rule conjunct1 [OF conjunct2 [OF conjunct2 [OF conjunct2 [OF conjunct2
      [OF conjunct2 [OF conjunct2 [OF conjunct2]]]]]]])
  have "output_file (''uploads'' @ ''/'' @ ''long.txt'') = output_file ''long.txt''"
    using t7 by (simp del: append.simps)
  moreover have "output_file (''long'' @ ''.'' @ ''txt'') = ''consolidated_analysis_'' @ ''long'' @ ''.txt''"
    using t8 by (simp del: append.simps)
  ultimately have out: "output_file ?p = ''consolidated_analysis_long.txt''" by simp
  have "output_file (''uploads/2024'' @ ''/'' @ ''hr.1234.XML'') = output_file ''hr.1234.XML''"
    using t7 by (simp del: append.simps)
  moreover have "output_file (''hr.1234'' @ ''.'' @ ''XML'')
                 = ''consolidated_analysis_'' @ ''hr.1234'' @ ''.txt''"
    using t8 by (simp del: append.simps)
  ultimately have out2: "output_file ''uploads/2024/hr.1234.XML''
                         = ''consolidated_analysis_hr.1234.txt''" by simp
  have r1: "final_report steady_env long_world (loaded steady_env long_world ?p)
            = ''1. BILL SUMMARY: clean energy funding''"
    by (simp add: final_report_def fusion_reply_def steady_env_def)
  have r2: "final_report revised_env ?w1 (loaded revised_env ?w1 ?p)
            = ''1. BILL SUMMARY: revised''"
    by (simp add: final_report_def fusion_reply_def revised_env_def)
  have a': "files ?w1 ''consolidated_analysis_long.txt''
      = Some (Inr ''1. BILL SUMMARY: clean energy funding'')"
    by (simp add: t3 out r1)
  have b': "files ?w2 ''consolidated_analysis_long.txt'' = Some (Inr ''1. BILL SUMMARY: revised'')"
    by (simp add: t4 out r2)
  from out out2 a' b' t5 show ?thesis by (intro conjI)
qed

end
